theory Spec2Isabelle
  imports Complex_Main "HOL-Library.Sublist"
begin

section \<open>Tensors, Python exceptions and the torch operations the code calls\<close>

text \<open>
  Times are scalar tensors; they are kept as exact reals. Element precision (dtype) and
  device placement are not part of the model, so \<^verbatim>\<open>.to(...)\<close>, \<^verbatim>\<open>.cpu()\<close> and
  \<^verbatim>\<open>.reshape(-1)\<close> on a list of scalars leave the value as it is.
\<close>

type_synonym time = real

text \<open>A state tensor: its shape and its entries in row-major order.\<close>

datatype tensor = Tensor (shape: "nat list") (entries: "real list")

text \<open>
  A tensor whose leading dimension enumerates rows (a trajectory, a stack of interpolation
  coefficients) is kept as the list of its rows.
\<close>

type_synonym rows = "tensor list"

text \<open>What the caller may pass as \<^verbatim>\<open>y0\<close>: one tensor, or a tuple of tensors.\<close>

datatype state = Single tensor | Tuple "tensor list"

fun is_tensor :: "state \<Rightarrow> bool" where
  "is_tensor (Single y) = True"
| "is_tensor (Tuple ys) = False"

text \<open>
  Every \<^verbatim>\<open>raise\<close> and failed \<^verbatim>\<open>assert\<close> is a value. \<open>OutOfInterpolationRange\<close> is the spec's
  name for the range failure of the interpolation routine.
\<close>

datatype error =
  AssertionError | IndexError | KeyError | RuntimeError | ValueError
  | NotImplementedError | OutOfInterpolationRange

text \<open>\<^verbatim>\<open>torch.empty(n, *sh)\<close>: a fresh buffer of \<open>n\<close> rows. Its contents are unspecified in
  torch; the model fills it with zeros, and no result below depends on that filling.\<close>

definition torch_empty :: "nat \<Rightarrow> nat list \<Rightarrow> rows" where
  "torch_empty n sh = replicate n (Tensor sh (replicate (prod_list sh) 0))"

text \<open>Broadcasting of a value into a destination shape, as indexed assignment does it: a
  value of the destination's shape is copied as it is; otherwise the leading dimensions of
  size 1 of the value are dropped, the shapes are aligned at their last dimension, and a
  source dimension must equal the destination's or be 1.\<close>

fun broadcastable_rev :: "nat list \<Rightarrow> nat list \<Rightarrow> bool" where
  "broadcastable_rev [] ds = True"
| "broadcastable_rev (s # ss) [] = False"
| "broadcastable_rev (s # ss) (d # ds) = ((s = d \<or> s = 1) \<and> broadcastable_rev ss ds)"

definition chunks :: "nat \<Rightarrow> nat \<Rightarrow> 'a list \<Rightarrow> 'a list list" where
  "chunks k n xs = map (\<lambda>i. take n (drop (i * n) xs)) [0..<k]"

fun expand_entries :: "nat list \<Rightarrow> nat list \<Rightarrow> real list \<Rightarrow> real list" where
  "expand_entries (s # ss) (d # ds) xs =
     (if s = d then concat (map (expand_entries ss ds) (chunks s (prod_list ss) xs))
      else concat (replicate d (expand_entries ss ds xs)))"
| "expand_entries ss ds xs = xs"

definition slice_prefix_1s :: "nat list \<Rightarrow> nat list" where
  "slice_prefix_1s sh = dropWhile (\<lambda>n. n = 1) sh"

definition broadcast_to :: "tensor \<Rightarrow> nat list \<Rightarrow> tensor option" where
  "broadcast_to v sh =
     (if shape v = sh then Some v
      else if broadcastable_rev (rev (slice_prefix_1s (shape v))) (rev sh)
      then Some (Tensor sh
             (expand_entries
                (replicate (length sh - length (slice_prefix_1s (shape v))) 1
                   @ slice_prefix_1s (shape v))
                sh (entries v)))
      else None)"

text \<open>\<^verbatim>\<open>solution[i] = v\<close> on a buffer of rows: the index must exist, and the value is
  broadcast into the row's shape.\<close>

definition setitem :: "rows \<Rightarrow> nat \<Rightarrow> tensor \<Rightarrow> error + rows" where
  "setitem solution i v =
     (if i < length solution
      then (case broadcast_to v (shape (solution ! i)) of
              None \<Rightarrow> Inl RuntimeError
            | Some r \<Rightarrow> Inr (solution[i := r]))
      else Inl IndexError)"

text \<open>\<^verbatim>\<open>torch.stack(ts, dim=0)\<close>: the list must not be empty and all its tensors must have
  one shape; the result has one row per tensor.\<close>

definition stack :: "tensor list \<Rightarrow> error + rows" where
  "stack ts =
     (case ts of
        [] \<Rightarrow> Inl RuntimeError
      | x # xs \<Rightarrow> if list_all (\<lambda>y. shape y = shape x) xs then Inr ts else Inl RuntimeError)"

section \<open>solvers.py: the adaptive solver base classes\<close>

text \<open>
  The solver object. \<open>y0\<close> is the attribute the base class stores and reads; every other
  attribute (\<open>dtype\<close>, \<open>norm\<close>, and whatever a subclass adds) lives in the extension part
  of the record.
\<close>

record solver =
  y0 :: tensor

text \<open>
  The methods a concrete scheme supplies. They are code outside these files, so they are
  parameters; each may raise and may update the solver object.
\<close>

record ('e, 'm) hooks =
  before_integrate :: "'m solver_scheme \<Rightarrow> time list \<Rightarrow> error + 'm solver_scheme"
  advance :: "'m solver_scheme \<Rightarrow> time \<Rightarrow> error + (tensor \<times> 'm solver_scheme)"
  advance_until_event ::
    "'m solver_scheme \<Rightarrow> 'e \<Rightarrow> error + ((time \<times> tensor) \<times> 'm solver_scheme)"

text \<open>The base classes' own bodies of two of these methods: \<^verbatim>\<open>_before_integrate\<close> does
  nothing, and \<^verbatim>\<open>_advance_until_event\<close> raises until a scheme overrides it.\<close>

definition before_integrate_base :: "'m solver_scheme \<Rightarrow> time list \<Rightarrow> error + 'm solver_scheme" where
  "before_integrate_base s t = Inr s"

definition advance_until_event_base ::
  "'m solver_scheme \<Rightarrow> 'e \<Rightarrow> error + ((time \<times> tensor) \<times> 'm solver_scheme)" where
  "advance_until_event_base s event_fn = Inl NotImplementedError"

text \<open>\<^verbatim>\<open>for i in range(1, len(t)): solution[i] = self._advance(t[i])\<close>\<close>

fun integrate_loop ::
  "('e, 'm) hooks \<Rightarrow> time list \<Rightarrow> nat list \<Rightarrow> rows \<times> 'm solver_scheme
     \<Rightarrow> error + (rows \<times> 'm solver_scheme)" where
  "integrate_loop h t [] (solution, s) = Inr (solution, s)"
| "integrate_loop h t (i # is) (solution, s) =
     (case advance h s (t ! i) of
        Inl e \<Rightarrow> Inl e
      | Inr (y, s') \<Rightarrow>
          (case setitem solution i y of
             Inl e \<Rightarrow> Inl e
           | Inr solution' \<Rightarrow> integrate_loop h t is (solution', s')))"

text \<open>\<^verbatim>\<open>AdaptiveStepsizeODESolver.integrate\<close>\<close>

definition integrate ::
  "('e, 'm) hooks \<Rightarrow> 'm solver_scheme \<Rightarrow> time list \<Rightarrow> error + (rows \<times> 'm solver_scheme)" where
  "integrate h s t =
     (case setitem (torch_empty (length t) (shape (y0 s))) 0 (y0 s) of
        Inl e \<Rightarrow> Inl e
      | Inr solution \<Rightarrow>
          (case before_integrate h s t of
             Inl e \<Rightarrow> Inl e
           | Inr s1 \<Rightarrow> integrate_loop h t [1..<length t] (solution, s1)))"

text \<open>What \<^verbatim>\<open>_advance\<close> returns at the times \<open>ts\<close>, called in their order, each call on the
  solver object the call before it left. \<open>integrate\<close> is compared with it below.\<close>

fun advance_all ::
  "('e, 'm) hooks \<Rightarrow> 'm solver_scheme \<Rightarrow> time list \<Rightarrow> error + (tensor list \<times> 'm solver_scheme)" where
  "advance_all h s [] = Inr ([], s)"
| "advance_all h s (x # xs) =
     (case advance h s x of
        Inl e \<Rightarrow> Inl e
      | Inr (y, s') \<Rightarrow>
          (case advance_all h s' xs of
             Inl e \<Rightarrow> Inl e
           | Inr (ys, s'') \<Rightarrow> Inr (y # ys, s'')))"

text \<open>\<^verbatim>\<open>AdaptiveStepsizeEventODESolver.integrate_until_event\<close>\<close>

definition integrate_until_event ::
  "('e, 'm) hooks \<Rightarrow> 'm solver_scheme \<Rightarrow> time \<Rightarrow> 'e
     \<Rightarrow> error + ((time \<times> rows) \<times> 'm solver_scheme)" where
  "integrate_until_event h s t_start event_fn =
     (case before_integrate h s [t_start] of
        Inl e \<Rightarrow> Inl e
      | Inr s1 \<Rightarrow>
          (case advance_until_event h s1 event_fn of
             Inl e \<Rightarrow> Inl e
           | Inr ((event_time, y1), s2) \<Rightarrow>
               (case stack [y0 s2, y1] of
                  Inl e \<Rightarrow> Inl e
                | Inr solution \<Rightarrow> Inr ((event_time, solution), s2))))"

section \<open>interp.py: the interpolation routine\<close>

text \<open>
  What the interpolation routine needs from outside: the floating tolerance of its range
  check, and the scheme's polynomial basis, which reconstructs the state at a time from
  the coefficients and the endpoints of the step.
\<close>

record interp =
  tol :: real
  basis :: "tensor list \<Rightarrow> time \<Rightarrow> time \<Rightarrow> time \<Rightarrow> tensor"

text \<open>
  Modelled from the spec: \<^verbatim>\<open>_interp_evaluate\<close> is imported from interp.py, which is not among
  the source files. The spec (4.3): \<^verbatim>\<open>evaluate(coeffs, t0, t1, t_query) -> state\<close> "requires
  t0 <= t_query <= t1 (within floating tolerance); errors with OutOfInterpolationRange
  otherwise", and inside the range "reconstructs state via a fixed local polynomial basis"
  whose "exact algebraic form is scheme-specific".
\<close>

definition interp_evaluate ::
  "interp \<Rightarrow> tensor list \<Rightarrow> time \<Rightarrow> time \<Rightarrow> time \<Rightarrow> error + tensor" where
  "interp_evaluate ip coefficients t0 t1 t =
     (if t0 - tol ip \<le> t \<and> t \<le> t1 + tol ip
      then Inr (basis ip coefficients t0 t1 t)
      else Inl OutOfInterpolationRange)"

section \<open>odeint.py\<close>

subsection \<open>The solver registry\<close>

datatype solver_cls =
  Dopri8Solver | Dopri5Solver | Bosh3Solver | Fehlberg2 | AdaptiveHeunSolver
  | Euler | Midpoint | Heun3 | RK4 | AdamsBashforth | AdamsBashforthMoulton
  | ScipyWrapperODESolver

definition SOLVERS :: "string \<rightharpoonup> solver_cls" where
  "SOLVERS = map_of
     [(''dopri8'', Dopri8Solver),
      (''dopri5'', Dopri5Solver),
      (''bosh3'', Bosh3Solver),
      (''fehlberg2'', Fehlberg2),
      (''adaptive_heun'', AdaptiveHeunSolver),
      (''euler'', Euler),
      (''midpoint'', Midpoint),
      (''heun3'', Heun3),
      (''rk4'', RK4),
      (''explicit_adams'', AdamsBashforth),
      (''implicit_adams'', AdamsBashforthMoulton),
      (''fixed_adams'', AdamsBashforthMoulton),
      (''scipy_solver'', ScipyWrapperODESolver)]"

subsection \<open>What the code imports\<close>

text \<open>
  The tuple \<^verbatim>\<open>_check_inputs\<close> returns:
  \<^verbatim>\<open>shapes, func, y0, t, rtol, atol, method, options, event_fn, t_is_reversed\<close>.
  \<open>func\<close>, the tolerances, the options and the event function are opaque to the code of
  odeint.py, which only hands them on.
\<close>

record ('f, 'r, 'o, 'e) checked =
  c_shapes :: "nat list list option"
  c_func :: 'f
  c_y0 :: tensor
  c_t :: "time list"
  c_rtol :: 'r
  c_atol :: 'r
  c_method :: string
  c_options :: 'o
  c_event_fn :: "'e option"
  c_t_is_reversed :: bool

text \<open>\<^verbatim>\<open>_check_inputs\<close> (misc.py) is a parameter of the model.\<close>

type_synonym ('f, 'r, 'o, 'e) check_inputs =
  "'f \<Rightarrow> state \<Rightarrow> time list \<Rightarrow> 'r \<Rightarrow> 'r \<Rightarrow> string option \<Rightarrow> 'o option \<Rightarrow> 'e option
     \<Rightarrow> (string \<rightharpoonup> solver_cls) \<Rightarrow> error + ('f, 'r, 'o, 'e) checked"

text \<open>\<^verbatim>\<open>_flat_to_shape(solution, length, shapes)\<close> (misc.py) is a parameter too: it turns the
  flat trajectory into one trajectory per component of a tuple state.\<close>

type_synonym flat_to_shape = "rows \<Rightarrow> nat list \<Rightarrow> nat list list \<Rightarrow> error + rows list"

text \<open>A solver class as \<^verbatim>\<open>odeint\<close> uses it: the constructor and the two entry methods,
  over the class's own object type \<open>'s\<close>.\<close>

record ('f, 'r, 'o, 'e, 's) solver_class =
  construct :: "'f \<Rightarrow> tensor \<Rightarrow> 'r \<Rightarrow> 'r \<Rightarrow> 'o \<Rightarrow> error + 's"
  integrate_m :: "'s \<Rightarrow> time list \<Rightarrow> error + (rows \<times> 's)"
  integrate_until_event_m :: "'s \<Rightarrow> time \<Rightarrow> 'e \<Rightarrow> error + ((time \<times> rows) \<times> 's)"

text \<open>A class derived from the adaptive base classes of solvers.py gets its entry methods
  from there.\<close>

definition adaptive_class ::
  "('f \<Rightarrow> tensor \<Rightarrow> 'r \<Rightarrow> 'r \<Rightarrow> 'o \<Rightarrow> error + 'm solver_scheme) \<Rightarrow> ('e, 'm) hooks
     \<Rightarrow> ('f, 'r, 'o, 'e, 'm solver_scheme) solver_class" where
  "adaptive_class init h =
     \<lparr> construct = init, integrate_m = integrate h,
       integrate_until_event_m = integrate_until_event h \<rparr>"

subsection \<open>odeint\<close>

text \<open>The value \<^verbatim>\<open>odeint\<close> returns: \<^verbatim>\<open>solution\<close>, or \<^verbatim>\<open>(event_t, solution)\<close>; the solution is the
  flat trajectory, or what \<^verbatim>\<open>_flat_to_shape\<close> made of it.\<close>

datatype solution = Flat rows | Shaped "rows list"

datatype odeint_result = Solution solution | Event time solution

text \<open>\<^verbatim>\<open>if shapes is not None: solution = _flat_to_shape(solution, (len(t),), shapes)\<close>\<close>

definition reshape_solution ::
  "flat_to_shape \<Rightarrow> nat list list option \<Rightarrow> time list \<Rightarrow> rows \<Rightarrow> error + solution" where
  "reshape_solution fts shapes t solution =
     (case shapes of
        None \<Rightarrow> Inr (Flat solution)
      | Some shs \<Rightarrow>
          (case fts solution [length t] shs of
             Inl e \<Rightarrow> Inl e
           | Inr tuple \<Rightarrow> Inr (Shaped tuple)))"

definition odeint ::
  "('f, 'r, 'o, 'e) check_inputs \<Rightarrow> (solver_cls \<Rightarrow> ('f, 'r, 'o, 'e, 's) solver_class)
     \<Rightarrow> flat_to_shape
     \<Rightarrow> 'f \<Rightarrow> state \<Rightarrow> time list \<Rightarrow> 'r \<Rightarrow> 'r \<Rightarrow> string option \<Rightarrow> 'o option \<Rightarrow> 'e option
     \<Rightarrow> error + odeint_result" where
  "odeint check classes fts func y_init t rtol atol method options event_fn =
     (case check func y_init t rtol atol method options event_fn SOLVERS of
        Inl e \<Rightarrow> Inl e
      | Inr c \<Rightarrow>
          (case SOLVERS (c_method c) of
             None \<Rightarrow> Inl KeyError
           | Some cls \<Rightarrow>
               (case construct (classes cls) (c_func c) (c_y0 c) (c_rtol c) (c_atol c)
                       (c_options c) of
                  Inl e \<Rightarrow> Inl e
                | Inr solver \<Rightarrow>
                    (case c_event_fn c of
                       None \<Rightarrow>
                         (case integrate_m (classes cls) solver (c_t c) of
                            Inl e \<Rightarrow> Inl e
                          | Inr (solution, solver') \<Rightarrow>
                              (case reshape_solution fts (c_shapes c) (c_t c) solution of
                                 Inl e \<Rightarrow> Inl e
                               | Inr sol \<Rightarrow> Inr (Solution sol)))
                     | Some ev \<Rightarrow>
                         (case c_t c of
                            [] \<Rightarrow> Inl IndexError
                          | t_first # t_rest \<Rightarrow>
                              (case integrate_until_event_m (classes cls) solver t_first ev of
                                 Inl e \<Rightarrow> Inl e
                               | Inr ((event_t, solution), solver') \<Rightarrow>
                                   (case reshape_solution fts (c_shapes c) (c_t c) solution of
                                      Inl e \<Rightarrow> Inl e
                                    | Inr sol \<Rightarrow>
                                        Inr (Event
                                          (if c_t_is_reversed c then - event_t else event_t)
                                          sol))))))))"

subsection \<open>odeint\_dense: the returned dense-output function\<close>

text \<open>\<^verbatim>\<open>torch.searchsorted(times, t_eval, side="right")\<close> on a one-dimensional \<open>times\<close>: the
  library's binary search, which moves the lower end past every probe that is not greater
  than the value.\<close>

function bisect_right :: "time list \<Rightarrow> time \<Rightarrow> nat \<Rightarrow> nat \<Rightarrow> nat" where
  "bisect_right xs v lo hi =
     (if lo < hi
      then (if \<not> (xs ! (lo + (hi - lo) div 2) > v)
            then bisect_right xs v (lo + (hi - lo) div 2 + 1) hi
            else bisect_right xs v lo (lo + (hi - lo) div 2))
      else lo)"
  by pat_completeness auto
termination
  by (relation "measure (\<lambda>(xs, v, lo, hi). hi - lo)") auto

definition searchsorted_right :: "time list \<Rightarrow> time \<Rightarrow> nat" where
  "searchsorted_right xs v = bisect_right xs v 0 (length xs)"

text \<open>Indexing with a possibly negative index: \<open>-1\<close> is the last element, and an index
  outside \<open>[-n, n)\<close> raises.\<close>

definition py_index :: "'a list \<Rightarrow> int \<Rightarrow> error + 'a" where
  "py_index xs i =
     (if 0 \<le> i \<and> i < int (length xs) then Inr (xs ! nat i)
      else if - int (length xs) \<le> i \<and> i < 0 then Inr (xs ! nat (int (length xs) + i))
      else Inl IndexError)"

text \<open>The first error of a list of results, or all their values.\<close>

fun collect :: "(error + 'a) list \<Rightarrow> error + 'a list" where
  "collect [] = Inr []"
| "collect (x # xs) =
     (case x of
        Inl e \<Rightarrow> Inl e
      | Inr v \<Rightarrow> (case collect xs of Inl e \<Rightarrow> Inl e | Inr vs \<Rightarrow> Inr (v # vs)))"

text \<open>\<^verbatim>\<open>[interp_coeffs[j][i] for i in range(interp_coeffs.shape[1])]\<close>, where \<open>interp_coeffs\<close>
  is the stack of the per-step coefficient stacks, so that its second dimension is the
  number of coefficients of a step.\<close>

definition coef_list :: "rows list \<Rightarrow> int \<Rightarrow> error + tensor list" where
  "coef_list interp_coeffs j =
     collect (map (\<lambda>i. case py_index interp_coeffs j of
                          Inl e \<Rightarrow> Inl e
                        | Inr c \<Rightarrow> py_index c (int i))
                [0..<(case interp_coeffs of [] \<Rightarrow> 0 | c # cs \<Rightarrow> length c)])"

text \<open>The closure \<^verbatim>\<open>dense_output_fn\<close>, with the two arrays it captures as arguments
  (\<open>tms\<close> is the source's \<open>times\<close>).\<close>

definition dense_output_fn ::
  "interp \<Rightarrow> time list \<Rightarrow> rows list \<Rightarrow> time \<Rightarrow> error + tensor" where
  "dense_output_fn ip tms interp_coeffs t_eval =
     (let idx = int (searchsorted_right tms t_eval) in
      case py_index tms (idx - 1) of
        Inl e \<Rightarrow> Inl e
      | Inr t0 \<Rightarrow>
          (case py_index tms idx of
             Inl e \<Rightarrow> Inl e
           | Inr t1 \<Rightarrow>
               (case coef_list interp_coeffs (idx - 1) of
                  Inl e \<Rightarrow> Inl e
                | Inr coef \<Rightarrow> interp_evaluate ip coef t0 t1 t_eval)))"

subsection \<open>odeint\_dense: the forward pass\<close>

text \<open>
  \<^verbatim>\<open>solver.rk_state\<close>: the code reads \<open>t0\<close>, \<open>t1\<close> and \<open>interp_coeff\<close> of it; its other fields
  are in the extension part.
\<close>

record rk_state =
  rk_t0 :: time
  rk_t1 :: time
  interp_coeff :: "tensor list"

record 'n rk_solver = solver +
  rk_state :: "'n rk_state_scheme"

text \<open>\<^verbatim>\<open>Dopri5Solver\<close> as \<^verbatim>\<open>odeint_dense\<close> uses it: the constructor, \<^verbatim>\<open>_before_integrate\<close> and
  \<^verbatim>\<open>_adaptive_step\<close>. They are code outside these files, so they are parameters.\<close>

record ('f, 'r, 'o, 'n, 'm) dopri5 =
  rk_construct :: "'f \<Rightarrow> tensor \<Rightarrow> 'r \<Rightarrow> 'r \<Rightarrow> 'o \<Rightarrow> error + ('n, 'm) rk_solver_scheme"
  rk_before_integrate ::
    "('n, 'm) rk_solver_scheme \<Rightarrow> time list \<Rightarrow> error + ('n, 'm) rk_solver_scheme"
  adaptive_step ::
    "('n, 'm) rk_solver_scheme \<Rightarrow> 'n rk_state_scheme
       \<Rightarrow> error + ('n rk_state_scheme \<times> ('n, 'm) rk_solver_scheme)"

text \<open>The variables the stepping loop updates: the solver object, the local \<open>t0\<close> (the last
  archived breakpoint), \<open>times\<close> and \<open>interp_coeffs\<close>.\<close>

type_synonym ('n, 'm) loop_state =
  "('n, 'm) rk_solver_scheme \<times> time \<times> time list \<times> rows list"

definition solver_of :: "('n, 'm) loop_state \<Rightarrow> ('n, 'm) rk_solver_scheme" where
  "solver_of st = fst st"

definition t0_of :: "('n, 'm) loop_state \<Rightarrow> time" where
  "t0_of st = fst (snd st)"

definition times_of :: "('n, 'm) loop_state \<Rightarrow> time list" where
  "times_of st = fst (snd (snd st))"

definition coeffs_of :: "('n, 'm) loop_state \<Rightarrow> rows list" where
  "coeffs_of st = snd (snd (snd st))"

definition t1_of :: "('n, 'm) loop_state \<Rightarrow> time" where
  "t1_of st = rk_t1 (rk_state (solver_of st))"

text \<open>The body of the \<^verbatim>\<open>while\<close> loop: one attempted step, archived if it moved \<open>t1\<close>.\<close>

definition dense_step ::
  "('f, 'r, 'o, 'n, 'm) dopri5 \<Rightarrow> ('n, 'm) loop_state \<Rightarrow> error + ('n, 'm) loop_state" where
  "dense_step d st =
     (case adaptive_step d (solver_of st) (rk_state (solver_of st)) of
        Inl e \<Rightarrow> Inl e
      | Inr (r, s') \<Rightarrow>
          (if rk_t1 r \<noteq> t0_of st
           then (case stack (interp_coeff r) of
                   Inl e \<Rightarrow> Inl e
                 | Inr c \<Rightarrow>
                     Inr (s'\<lparr>rk_state := r\<rparr>, rk_t1 r, times_of st @ [rk_t1 r],
                          coeffs_of st @ [c]))
           else Inr (s'\<lparr>rk_state := r\<rparr>, t0_of st, times_of st, coeffs_of st)))"

text \<open>\<^verbatim>\<open>while next_t > solver.rk_state.t1: ...\<close>. The loop need not end; not returning is
  \<open>None\<close>.\<close>

partial_function (option) dense_while ::
  "('f, 'r, 'o, 'n, 'm) dopri5 \<Rightarrow> time \<Rightarrow> ('n, 'm) loop_state
     \<Rightarrow> (error + ('n, 'm) loop_state) option" where
  "dense_while d next_t st =
     (if next_t > t1_of st
      then (case dense_step d st of
              Inl e \<Rightarrow> Some (Inl e)
            | Inr st' \<Rightarrow> dense_while d next_t st')
      else Some (Inr st))"

text \<open>The body of the \<^verbatim>\<open>for\<close> loop up to the value stored in \<^verbatim>\<open>solution[i]\<close>: step until
  \<open>t1\<close> reaches \<open>next_t\<close>, then evaluate the interpolation of the solver's current state.\<close>

definition dense_advance ::
  "('f, 'r, 'o, 'n, 'm) dopri5 \<Rightarrow> interp \<Rightarrow> time \<Rightarrow> ('n, 'm) loop_state
     \<Rightarrow> (error + (tensor \<times> ('n, 'm) loop_state)) option" where
  "dense_advance d ip next_t st =
     (case dense_while d next_t st of
        None \<Rightarrow> None
      | Some (Inl e) \<Rightarrow> Some (Inl e)
      | Some (Inr st') \<Rightarrow>
          (case interp_evaluate ip (interp_coeff (rk_state (solver_of st')))
                  (rk_t0 (rk_state (solver_of st'))) (rk_t1 (rk_state (solver_of st'))) next_t of
             Inl e \<Rightarrow> Some (Inl e)
           | Inr row \<Rightarrow> Some (Inr (row, st'))))"

text \<open>\<^verbatim>\<open>for i in range(1, len(t)): ...\<close>\<close>

fun dense_for ::
  "('f, 'r, 'o, 'n, 'm) dopri5 \<Rightarrow> interp \<Rightarrow> time list \<Rightarrow> nat list
     \<Rightarrow> rows \<times> ('n, 'm) loop_state \<Rightarrow> (error + (rows \<times> ('n, 'm) loop_state)) option" where
  "dense_for d ip t [] (solution, st) = Some (Inr (solution, st))"
| "dense_for d ip t (i # is) (solution, st) =
     (case dense_advance d ip (t ! i) st of
        None \<Rightarrow> None
      | Some (Inl e) \<Rightarrow> Some (Inl e)
      | Some (Inr (row, st')) \<Rightarrow>
          (case setitem solution i row of
             Inl e \<Rightarrow> Some (Inl e)
           | Inr solution' \<Rightarrow> dense_for d ip t is (solution', st')))"

text \<open>The shape of a stack of rows, and \<^verbatim>\<open>torch.stack\<close> of such stacks.\<close>

definition rows_shape :: "rows \<Rightarrow> nat list" where
  "rows_shape c = length c # (case c of [] \<Rightarrow> [] | x # xs \<Rightarrow> shape x)"

definition stack_rows :: "rows list \<Rightarrow> error + rows list" where
  "stack_rows cs =
     (case cs of
        [] \<Rightarrow> Inl RuntimeError
      | c # cs' \<Rightarrow>
          if list_all (\<lambda>c'. rows_shape c' = rows_shape c) cs' then Inr cs else Inl RuntimeError)"

text \<open>\<^verbatim>\<open>odeint_dense\<close> up to the two arrays its closure captures.\<close>

definition odeint_dense_archive ::
  "('f, 'r, 'o, 'e) check_inputs \<Rightarrow> ('f, 'r, 'o, 'n, 'm) dopri5 \<Rightarrow> interp
     \<Rightarrow> 'f \<Rightarrow> state \<Rightarrow> time \<Rightarrow> time \<Rightarrow> 'r \<Rightarrow> 'r \<Rightarrow> string option \<Rightarrow> 'o option
     \<Rightarrow> (error + (time list \<times> rows list)) option" where
  "odeint_dense_archive check d ip func y_init t_start t_end rtol atol method options =
     (if \<not> is_tensor y_init then Some (Inl AssertionError)
      else
        (case check func y_init [t_start, t_end] rtol atol method options None SOLVERS of
           Inl e \<Rightarrow> Some (Inl e)
         | Inr c \<Rightarrow>
             (if c_method c \<noteq> ''dopri5'' then Some (Inl AssertionError)
              else
                (case rk_construct d (c_func c) (c_y0 c) (c_rtol c) (c_atol c) (c_options c) of
                   Inl e \<Rightarrow> Some (Inl e)
                 | Inr s \<Rightarrow>
                     (case setitem (torch_empty (length (c_t c)) (shape (y0 s))) 0 (y0 s) of
                        Inl e \<Rightarrow> Some (Inl e)
                      | Inr solution \<Rightarrow>
                          (case rk_before_integrate d s (c_t c) of
                             Inl e \<Rightarrow> Some (Inl e)
                           | Inr s1 \<Rightarrow>
                               (case dense_for d ip (c_t c) [1..<length (c_t c)]
                                       (solution,
                                        (s1, rk_t0 (rk_state s1), [rk_t0 (rk_state s1)], [])) of
                                  None \<Rightarrow> None
                                | Some (Inl e) \<Rightarrow> Some (Inl e)
                                | Some (Inr (solution', st)) \<Rightarrow>
                                    (case stack_rows (coeffs_of st) of
                                       Inl e \<Rightarrow> Some (Inl e)
                                     | Inr cs \<Rightarrow> Some (Inr (times_of st, cs))))))))))"

text \<open>\<^verbatim>\<open>odeint_dense\<close>: the closure over the two arrays.\<close>

definition odeint_dense ::
  "('f, 'r, 'o, 'e) check_inputs \<Rightarrow> ('f, 'r, 'o, 'n, 'm) dopri5 \<Rightarrow> interp
     \<Rightarrow> 'f \<Rightarrow> state \<Rightarrow> time \<Rightarrow> time \<Rightarrow> 'r \<Rightarrow> 'r \<Rightarrow> string option \<Rightarrow> 'o option
     \<Rightarrow> (error + (time \<Rightarrow> error + tensor)) option" where
  "odeint_dense check d ip func y_init t_start t_end rtol atol method options =
     (case odeint_dense_archive check d ip func y_init t_start t_end rtol atol method options of
        None \<Rightarrow> None
      | Some (Inl e) \<Rightarrow> Some (Inl e)
      | Some (Inr (tms, cs)) \<Rightarrow> Some (Inr (dense_output_fn ip tms cs)))"

text \<open>The state after \<open>k\<close> passes through the body of the \<^verbatim>\<open>while\<close> loop.\<close>

fun dense_steps ::
  "nat \<Rightarrow> ('f, 'r, 'o, 'n, 'm) dopri5 \<Rightarrow> ('n, 'm) loop_state \<Rightarrow> error + ('n, 'm) loop_state" where
  "dense_steps 0 d st = Inr st"
| "dense_steps (Suc k) d st =
     (case dense_step d st of Inl e \<Rightarrow> Inl e | Inr st' \<Rightarrow> dense_steps k d st')"

subsection \<open>What the archive needs from the stepping scheme\<close>

text \<open>
  Modelled from the spec: \<^verbatim>\<open>_adaptive_step\<close> is a method of the scheme's class, which is not
  among the source files. The spec (3, 4.2): "each acceptance moves t0,t1 forward", and
  "a rejected trial step leaves RK State unchanged except for the shrunk step-size hint".
  So an attempted step never moves the right endpoint \<open>t1\<close> backwards.
\<close>

definition step_monotone :: "('f, 'r, 'o, 'n, 'm) dopri5 \<Rightarrow> bool" where
  "step_monotone d =
     (\<forall>s r r' s'. adaptive_step d s r = Inr (r', s') \<longrightarrow> rk_t1 r \<le> rk_t1 r')"

text \<open>
  Modelled from the spec: \<^verbatim>\<open>_before_integrate\<close> of the scheme's class is not among the source
  files either. The spec (3, 4.2): the RK state holds \<open>t0\<close> and \<open>t1\<close> with "t0 < t1 always
  once a step has been accepted", and "times[0] must equal the solver's initialized start
  time". So before any step is accepted the state sits at the start time: \<open>t0 = t1\<close>.
\<close>

definition starts_at_point :: "('f, 'r, 'o, 'n, 'm) dopri5 \<Rightarrow> bool" where
  "starts_at_point d =
     (\<forall>s t s1. rk_before_integrate d s t = Inr s1
        \<longrightarrow> rk_t0 (rk_state s1) = rk_t1 (rk_state s1))"

text \<open>
  Modelled from the spec: whether a trial step was accepted is decided inside
  \<^verbatim>\<open>_adaptive_step\<close>. The spec (3): "a rejected trial step leaves RK State unchanged except
  for the shrunk step-size hint"; (4.2): "each acceptance moves t0,t1 forward". So a pass
  through the loop body was a rejected step when the solver's \<open>t1\<close> is where it was.
\<close>

definition step_rejected :: "('n, 'm) loop_state \<Rightarrow> ('n, 'm) loop_state \<Rightarrow> bool" where
  "step_rejected st st' = (t1_of st' = t1_of st)"

text \<open>The loop variables before the first pass:
  \<^verbatim>\<open>t0 = solver.rk_state.t0; times = [t0]; interp_coeffs = []\<close>.\<close>

definition loop_start :: "('n, 'm) rk_solver_scheme \<Rightarrow> ('n, 'm) loop_state" where
  "loop_start s1 = (s1, rk_t0 (rk_state s1), [rk_t0 (rk_state s1)], [])"

text \<open>The invariant of the stepping loop: the breakpoints are strictly increasing, the
  local \<open>t0\<close> is the last of them and is the solver's \<open>t1\<close>, and there is one stack of
  coefficients per interval between breakpoints.\<close>

definition archive_ok :: "('n, 'm) loop_state \<Rightarrow> bool" where
  "archive_ok st =
     (sorted_wrt (<) (times_of st) \<and> times_of st \<noteq> [] \<and> last (times_of st) = t0_of st
      \<and> t0_of st = t1_of st \<and> length (coeffs_of st) + 1 = length (times_of st))"

subsection \<open>The requested times, one after the other\<close>

text \<open>
  The reading of the integration loop that the forward pass is compared with (spec 4.2):
  for each requested time in order, keep attempting steps while \<open>t1\<close> is below the time, and
  once it is not, evaluate the interpolation there with the current coefficients.

  \<open>first_reach d next_t k st\<close>: after \<open>k\<close> passes through the loop body from \<open>st\<close> the solver's
  \<open>t1\<close> has reached \<open>next_t\<close>, and after fewer passes it has not.
\<close>

definition first_reach ::
  "('f, 'r, 'o, 'n, 'm) dopri5 \<Rightarrow> time \<Rightarrow> nat \<Rightarrow> ('n, 'm) loop_state \<Rightarrow> bool" where
  "first_reach d next_t k st =
     (case dense_steps k d st of
        Inl e \<Rightarrow> False
      | Inr st' \<Rightarrow>
          next_t \<le> t1_of st'
          \<and> list_all (\<lambda>j. case dense_steps j d st of
                             Inl e \<Rightarrow> False
                           | Inr sj \<Rightarrow> t1_of sj < next_t) [0..<k])"

text \<open>A schedule lists, for each requested index \<open>i\<close> in order, a number of passes \<open>k\<close>.
  \<open>schedule_first\<close>: every \<open>k\<close> is the number of passes after which \<open>t1\<close> first reaches
  \<open>t[i]\<close>, counted from the state the time before left.\<close>

fun schedule_first ::
  "('f, 'r, 'o, 'n, 'm) dopri5 \<Rightarrow> time list \<Rightarrow> (nat \<times> nat) list \<Rightarrow> ('n, 'm) loop_state \<Rightarrow> bool" where
  "schedule_first d t [] st = True"
| "schedule_first d t ((i, k) # plan) st =
     (first_reach d (t ! i) k st
      \<and> (case dense_steps k d st of
            Inl e \<Rightarrow> False
          | Inr st' \<Rightarrow> schedule_first d t plan st'))"

text \<open>\<open>scheduled_rows\<close>: for each \<open>(i, k)\<close> of the schedule in order, make \<open>k\<close> passes, evaluate the
  interpolation at \<open>t[i]\<close> with the coefficients and endpoints of the state then, and store
  the value as row \<open>i\<close>.\<close>

fun scheduled_rows ::
  "('f, 'r, 'o, 'n, 'm) dopri5 \<Rightarrow> interp \<Rightarrow> time list \<Rightarrow> (nat \<times> nat) list
     \<Rightarrow> rows \<times> ('n, 'm) loop_state \<Rightarrow> error + (rows \<times> ('n, 'm) loop_state)" where
  "scheduled_rows d ip t [] (solution, st) = Inr (solution, st)"
| "scheduled_rows d ip t ((i, k) # plan) (solution, st) =
     (case dense_steps k d st of
        Inl e \<Rightarrow> Inl e
      | Inr st' \<Rightarrow>
          (case interp_evaluate ip (interp_coeff (rk_state (solver_of st')))
                  (rk_t0 (rk_state (solver_of st'))) (rk_t1 (rk_state (solver_of st')))
                  (t ! i) of
             Inl e \<Rightarrow> Inl e
           | Inr row \<Rightarrow>
               (case setitem solution i row of
                  Inl e \<Rightarrow> Inl e
                | Inr solution' \<Rightarrow> scheduled_rows d ip t plan (solution', st'))))"

section \<open>A small instance to run the definitions on\<close>

text \<open>
  A scheme over the base classes of solvers.py. The solver object remembers the start time
  in its extension part; \<open>_advance\<close> at a time \<open>x\<close> returns the state \<open>[x, 2x]\<close>, and the event
  is reported half a time unit after the start.
\<close>

definition demo_hooks :: "(unit, real) hooks" where
  "demo_hooks =
     \<lparr> before_integrate =
         (\<lambda>s t. case t of [] \<Rightarrow> Inl IndexError | a # r \<Rightarrow> Inr (s\<lparr>solver.more := a\<rparr>)),
       advance = (\<lambda>s x. Inr (Tensor [2] [x, 2 * x], s)),
       advance_until_event = (\<lambda>s e. Inr ((solver.more s + 1 / 2, Tensor [2] [5, 6]), s)) \<rparr>"

definition demo_solver :: "real solver_scheme" where
  "demo_solver = \<lparr> y0 = Tensor [2] [3, 4], \<dots> = 0 \<rparr>"

text \<open>Input checking for the instance, in this order: with an event function the time
  sequence must have exactly two elements; the method defaults to \<open>dopri5\<close> and must be
  registered; a decreasing time sequence is negated and flagged, and must then be strictly
  increasing; a tuple state is flattened and its shapes kept.\<close>

definition demo_check :: "(unit, real, unit, unit) check_inputs" where
  "demo_check func y_init t rtol atol method options event_fn solvers =
     (let m = (case method of None \<Rightarrow> ''dopri5'' | Some name \<Rightarrow> name);
          rev_t = (case t of a # b # r \<Rightarrow> b < a | _ \<Rightarrow> False);
          t_norm = (if rev_t then map uminus t else t)
      in if event_fn \<noteq> None \<and> length t \<noteq> 2 then Inl ValueError
         else if solvers m = None then Inl ValueError
         else if \<not> sorted_wrt (<) t_norm then Inl AssertionError
         else Inr
           \<lparr> c_shapes = (case y_init of Single y \<Rightarrow> None | Tuple ys \<Rightarrow> Some (map shape ys)),
             c_func = func,
             c_y0 = (case y_init of
                       Single y \<Rightarrow> y
                     | Tuple ys \<Rightarrow>
                         Tensor [sum_list (map (\<lambda>y. prod_list (shape y)) ys)]
                           (concat (map entries ys))),
             c_t = t_norm,
             c_rtol = rtol,
             c_atol = atol,
             c_method = m,
             c_options = (),
             c_event_fn = event_fn,
             c_t_is_reversed = rev_t \<rparr>)"

definition demo_classes :: "solver_cls \<Rightarrow> (unit, real, unit, unit, real solver_scheme) solver_class" where
  "demo_classes cls =
     adaptive_class (\<lambda>func y rtol atol options. Inr \<lparr> y0 = y, \<dots> = 0 \<rparr>) demo_hooks"

text \<open>Reshaping for the instance: the number of rows must be the requested length, and
  every row is cut into pieces of the given shapes.\<close>

fun cut_row :: "nat list list \<Rightarrow> real list \<Rightarrow> tensor list" where
  "cut_row [] xs = []"
| "cut_row (sh # shs) xs =
     Tensor sh (take (prod_list sh) xs) # cut_row shs (drop (prod_list sh) xs)"

definition demo_flat_to_shape :: flat_to_shape where
  "demo_flat_to_shape solution len shs =
     (if [length solution] = len
      then Inr (map (\<lambda>k. map (\<lambda>row. cut_row shs (entries row) ! k) solution) [0..<length shs])
      else Inl RuntimeError)"

text \<open>A stepping scheme for \<^verbatim>\<open>odeint_dense\<close>. The extension part of the step state is the
  step size: a step size that is not positive is an error, a trial step longer than one
  half is rejected and halved, a shorter one is accepted.\<close>

definition demo_dopri5 :: "(unit, real, unit, real, unit) dopri5" where
  "demo_dopri5 =
     \<lparr> rk_construct =
         (\<lambda>func y rtol atol options.
            Inr \<lparr> y0 = y,
                  rk_state = \<lparr> rk_t0 = 0, rk_t1 = 0, interp_coeff = [y], \<dots> = 1 \<rparr> \<rparr>),
       rk_before_integrate =
         (\<lambda>s t. case t of
                   [] \<Rightarrow> Inl IndexError
                 | a # r \<Rightarrow>
                     Inr (s\<lparr>rk_state :=
                            \<lparr> rk_t0 = a, rk_t1 = a, interp_coeff = [y0 s], \<dots> = 1 \<rparr>\<rparr>)),
       adaptive_step =
         (\<lambda>s r. if rk_state.more r \<le> 0 then Inl AssertionError
                 else if 1 / 2 < rk_state.more r
                 then Inr (r\<lparr>rk_t0 := rk_t1 r, rk_state.more := rk_state.more r / 2\<rparr>, s)
                 else Inr (r\<lparr>rk_t0 := rk_t1 r, rk_t1 := rk_t1 r + rk_state.more r,
                             interp_coeff := [y0 s, y0 s]\<rparr>, s)) \<rparr>"

definition demo_interp :: interp where
  "demo_interp = \<lparr> tol = 1 / 1000, basis = (\<lambda>cs a b t. hd cs) \<rparr>"

text \<open>A second interpolation for the instance, whose value shows the interval and the query:
  the left endpoint and the query time.\<close>

definition demo_interp_ends :: interp where
  "demo_interp_ends = \<lparr> tol = 1 / 1000, basis = (\<lambda>cs a b t. Tensor [2] [a, t]) \<rparr>"

text \<open>The solver object of the instance after \<^verbatim>\<open>_before_integrate\<close> at start time 0, and four
  states of its stepping loop: at the start, after the first (rejected) step, after the
  second (accepted) step and after the third (accepted) step.\<close>

definition demo_rk_solver :: "(real, unit) rk_solver_scheme" where
  "demo_rk_solver =
     \<lparr> y0 = Tensor [2] [3, 4],
       rk_state = \<lparr> rk_t0 = 0, rk_t1 = 0, interp_coeff = [Tensor [2] [3, 4]], \<dots> = 1 \<rparr> \<rparr>"

definition demo_state :: "(real, unit) loop_state" where
  "demo_state =
     (\<lparr> y0 = Tensor [2] [3, 4],
        rk_state = \<lparr> rk_t0 = 0, rk_t1 = 0, interp_coeff = [Tensor [2] [3, 4]], \<dots> = 1 \<rparr> \<rparr>,
      0, [0], [])"

definition demo_state1 :: "(real, unit) loop_state" where
  "demo_state1 =
     (\<lparr> y0 = Tensor [2] [3, 4],
        rk_state = \<lparr> rk_t0 = 0, rk_t1 = 0, interp_coeff = [Tensor [2] [3, 4]], \<dots> = 1 / 2 \<rparr> \<rparr>,
      0, [0], [])"

definition demo_state2 :: "(real, unit) loop_state" where
  "demo_state2 =
     (\<lparr> y0 = Tensor [2] [3, 4],
        rk_state = \<lparr> rk_t0 = 0, rk_t1 = 1 / 2,
                     interp_coeff = [Tensor [2] [3, 4], Tensor [2] [3, 4]], \<dots> = 1 / 2 \<rparr> \<rparr>,
      1 / 2, [0, 1 / 2], [[Tensor [2] [3, 4], Tensor [2] [3, 4]]])"

definition demo_state3 :: "(real, unit) loop_state" where
  "demo_state3 =
     (\<lparr> y0 = Tensor [2] [3, 4],
        rk_state = \<lparr> rk_t0 = 1 / 2, rk_t1 = 1,
                     interp_coeff = [Tensor [2] [3, 4], Tensor [2] [3, 4]], \<dots> = 1 / 2 \<rparr> \<rparr>,
      1, [0, 1 / 2, 1],
      [[Tensor [2] [3, 4], Tensor [2] [3, 4]], [Tensor [2] [3, 4], Tensor [2] [3, 4]]])"

text \<open>The coefficient array of the instance's run from 0 to 1.\<close>

definition demo_coeffs :: "rows list" where
  "demo_coeffs =
     [[Tensor [2] [3, 4], Tensor [2] [3, 4]], [Tensor [2] [3, 4], Tensor [2] [3, 4]]]"

section \<open>Properties of solvers.py\<close>

lemma broadcast_to_shape: "broadcast_to v sh = Some r \<Longrightarrow> shape r = sh"
  by (auto simp: broadcast_to_def split: if_splits)

lemma broadcast_to_same: "broadcast_to v (shape v) = Some v"
  by (simp add: broadcast_to_def)

lemma setitem_length: "setitem sol i v = Inr sol' \<Longrightarrow> length sol' = length sol"
  by (auto simp: setitem_def split: if_splits option.splits)

lemma setitem_other: "setitem sol i v = Inr sol' \<Longrightarrow> j \<noteq> i \<Longrightarrow> sol' ! j = sol ! j"
  by (auto simp: setitem_def split: if_splits option.splits)

lemma setitem_shapes:
  "setitem sol i v = Inr sol' \<Longrightarrow> list_all (\<lambda>r. shape r = sh) sol
     \<Longrightarrow> list_all (\<lambda>r. shape r = sh) sol'"
  by (auto simp: setitem_def list_all_length nth_list_update
      split: if_splits option.splits dest: broadcast_to_shape)

lemma integrate_loop_post:
  "integrate_loop h t is (sol, s) = Inr (sol', s') \<Longrightarrow> list_all (\<lambda>i. i \<noteq> 0) is
     \<Longrightarrow> list_all (\<lambda>r. shape r = sh) sol
     \<Longrightarrow> length sol' = length sol \<and> sol' ! 0 = sol ! 0 \<and> list_all (\<lambda>r. shape r = sh) sol'"
proof (induction "is" arbitrary: sol s)
  case Nil
  then show ?case by simp
next
  case (Cons i "is")
  from Cons.prems(1) obtain y s1 sol1 where
    adv: "advance h s (t ! i) = Inr (y, s1)" and
    set: "setitem sol i y = Inr sol1" and
    rest: "integrate_loop h t is (sol1, s1) = Inr (sol', s')"
    by (auto split: sum.splits)
  from Cons.prems(2) have i: "i \<noteq> 0" and "is": "list_all (\<lambda>i. i \<noteq> 0) is"
    by simp_all
  have sh1: "list_all (\<lambda>r. shape r = sh) sol1"
    using setitem_shapes [OF set Cons.prems(3)] .
  have "length sol' = length sol1 \<and> sol' ! 0 = sol1 ! 0 \<and> list_all (\<lambda>r. shape r = sh) sol'"
    using Cons.IH [OF rest "is" sh1] .
  moreover have "length sol1 = length sol"
    using setitem_length [OF set] .
  moreover have "sol1 ! 0 = sol ! 0"
    using setitem_other [OF set, of 0] i by simp
  ultimately show ?case by simp
qed

lemma list_all_update:
  "list_all P xs \<Longrightarrow> P x \<Longrightarrow> list_all P (xs[i := x])"
  using set_update_subset_insert [of xs i x] by (auto simp: list_all_iff)

lemma first_row_set:
  "t \<noteq> [] \<Longrightarrow>
     setitem (torch_empty (length t) (shape y)) 0 y = Inr ((torch_empty (length t) (shape y))[0 := y])"
  by (cases t) (simp_all add: setitem_def torch_empty_def broadcast_to_def)

lemma torch_empty_shapes: "list_all (\<lambda>r. shape r = sh) (torch_empty n sh)"
  by (simp add: torch_empty_def list_all_length)

lemma integrate_post:
  assumes "integrate h s t = Inr (sol, s')"
  shows "t \<noteq> [] \<and> length sol = length t \<and> sol ! 0 = y0 s
           \<and> list_all (\<lambda>r. shape r = shape (y0 s)) sol"
proof -
  have ne: "t \<noteq> []"
    using assms by (auto simp: integrate_def setitem_def torch_empty_def)
  let ?buf = "(torch_empty (length t) (shape (y0 s)))[0 := y0 s]"
  from assms ne obtain s1 where
    loop: "integrate_loop h t [1..<length t] (?buf, s1) = Inr (sol, s')"
    by (auto simp: integrate_def first_row_set split: sum.splits)
  have idx: "list_all (\<lambda>i. i \<noteq> 0) [1..<length t]"
    by (simp add: list_all_iff)
  have "list_all (\<lambda>r. shape r = shape (y0 s)) (torch_empty (length t) (shape (y0 s)))"
    by (rule torch_empty_shapes)
  then have shp: "list_all (\<lambda>r. shape r = shape (y0 s)) ?buf"
    by (rule list_all_update) simp
  have "length sol = length ?buf \<and> sol ! 0 = ?buf ! 0
          \<and> list_all (\<lambda>r. shape r = shape (y0 s)) sol"
    using integrate_loop_post [OF loop idx shp] .
  moreover have "length ?buf = length t"
    by (simp add: torch_empty_def)
  moreover have "?buf ! 0 = y0 s"
    using ne by (simp add: torch_empty_def)
  ultimately show ?thesis using ne by simp
qed

lemma those_map_Cons:
  assumes "those (map f (y # ys)) = Some rws"
  obtains r rs where "f y = Some r" and "those (map f ys) = Some rs" and "rws = r # rs"
  using assms by (auto split: option.splits)

lemma those_map_length: "those (map f ys) = Some rws \<Longrightarrow> length rws = length ys"
  by (induction ys arbitrary: rws) (auto split: option.splits)

lemma those_broadcast_shapes:
  "those (map (\<lambda>y. broadcast_to y sh) ys) = Some rws \<Longrightarrow> list_all (\<lambda>r. shape r = sh) rws"
  by (induction ys arbitrary: rws) (auto split: option.splits dest: broadcast_to_shape)

lemma advance_all_length: "advance_all h s xs = Inr (ys, s') \<Longrightarrow> length ys = length xs"
  by (induction xs arbitrary: s ys) (auto split: sum.splits)

lemma integrate_loop_rows:
  "advance_all h s (drop k t) = Inr (ys, s') \<Longrightarrow>
   those (map (\<lambda>y. broadcast_to y sh) ys) = Some rws \<Longrightarrow>
   length sol = length t \<Longrightarrow> list_all (\<lambda>r. shape r = sh) sol \<Longrightarrow>
   integrate_loop h t [k..<length t] (sol, s) = Inr (take k sol @ rws, s')"
proof (induction ys arbitrary: k sol s rws)
  case Nil
  from Nil.prems(1) have "length (drop k t) = 0"
    using advance_all_length by fastforce
  then have k: "length t \<le> k" by simp
  with Nil.prems(1) have "s' = s" by simp
  with k Nil.prems(2,3) show ?case by simp
next
  case (Cons y ys)
  from Cons.prems(1) have "length (drop k t) = Suc (length ys)"
    using advance_all_length by fastforce
  then have k: "k < length t" by simp
  then have drop: "drop k t = t ! k # drop (Suc k) t"
    by (simp add: Cons_nth_drop_Suc)
  from Cons.prems(1) obtain s1 where
    adv: "advance h s (t ! k) = Inr (y, s1)" and
    rest: "advance_all h s1 (drop (Suc k) t) = Inr (ys, s')"
    by (auto simp: drop split: sum.splits)
  from Cons.prems(2) obtain r rs where
    r: "broadcast_to y sh = Some r" and rs: "those (map (\<lambda>y. broadcast_to y sh) ys) = Some rs"
    and rws: "rws = r # rs"
    by (rule those_map_Cons)
  from k Cons.prems(3,4) have "shape (sol ! k) = sh"
    by (simp add: list_all_length)
  with k r Cons.prems(3) have set: "setitem sol k y = Inr (sol[k := r])"
    by (simp add: setitem_def)
  have "list_all (\<lambda>r. shape r = sh) (sol[k := r])"
    using Cons.prems(4) broadcast_to_shape [OF r] by (rule list_all_update)
  with Cons.IH [OF rest rs, of "sol[k := r]"] Cons.prems(3)
  have "integrate_loop h t [Suc k..<length t] (sol[k := r], s1)
          = Inr (take (Suc k) (sol[k := r]) @ rs, s')"
    by simp
  moreover have "take (Suc k) (sol[k := r]) = take k sol @ [r]"
    using k Cons.prems(3) by (simp add: take_Suc_conv_app_nth)
  moreover have "[k..<length t] = k # [Suc k..<length t]"
    using k by (simp add: upt_conv_Cons)
  ultimately show ?case
    using adv set rws by simp
qed

text \<open>
  C2. For a non-empty time sequence \<open>t\<close>, when \<open>_before_integrate\<close> returns and the calls of
  \<open>_advance\<close> at \<open>t[1], t[2], ...\<close> return values that fit a row of the state's shape,
  \<open>integrate\<close> returns the trajectory whose row 0 is the solver's \<open>y0\<close> as it was on entry
  (it is stored before any hook runs) and whose row \<open>i\<close> is what \<open>_advance(t[i])\<close> returned,
  fitted to the row: one row per requested time, each of the state's shape.
\<close>

theorem integrate_one_row_per_time:
  assumes "t \<noteq> []"
    and "before_integrate h s t = Inr s1"
    and "advance_all h s1 (tl t) = Inr (ys, s')"
    and "those (map (\<lambda>y. broadcast_to y (shape (y0 s))) ys) = Some rws"
  shows "integrate h s t = Inr (y0 s # rws, s') \<and> length (y0 s # rws) = length t
           \<and> list_all (\<lambda>r. shape r = shape (y0 s)) (y0 s # rws)"
proof -
  let ?buf = "(torch_empty (length t) (shape (y0 s)))[0 := y0 s]"
  have "list_all (\<lambda>r. shape r = shape (y0 s)) (torch_empty (length t) (shape (y0 s)))"
    by (rule torch_empty_shapes)
  then have shp: "list_all (\<lambda>r. shape r = shape (y0 s)) ?buf"
    by (rule list_all_update) simp
  have len: "length ?buf = length t"
    by (simp add: torch_empty_def)
  have tl: "drop 1 t = tl t"
    by (simp add: drop_Suc)
  have "integrate_loop h t [1..<length t] (?buf, s1) = Inr (take 1 ?buf @ rws, s')"
    using assms(3,4) len shp unfolding tl [symmetric] by (rule integrate_loop_rows)
  moreover have "take 1 ?buf = [y0 s]"
    using assms(1) by (cases t) (simp_all add: torch_empty_def)
  ultimately have run: "integrate h s t = Inr (y0 s # rws, s')"
    using assms(1,2) by (simp add: integrate_def first_row_set)
  have "length rws = length (tl t)"
    using those_map_length [OF assms(4)] advance_all_length [OF assms(3)] by simp
  then have "length (y0 s # rws) = length t"
    using assms(1) by simp
  moreover have "list_all (\<lambda>r. shape r = shape (y0 s)) (y0 s # rws)"
    using those_broadcast_shapes [OF assms(4)] by simp
  ultimately show ?thesis using run by simp
qed

theorem integrate_one_row_per_time_witness:
  "integrate demo_hooks demo_solver [0, 1, 2]
     = Inr ([Tensor [2] [3, 4], Tensor [2] [1, 2], Tensor [2] [2, 4]], demo_solver)
   \<and> length [Tensor [2] [3, 4], Tensor [2] [1, 2], Tensor [2] [2, 4]] = length [0, 1, 2 :: time]"
proof -
  have a: "[0, 1, 2 :: time] \<noteq> []" by simp
  have b: "before_integrate demo_hooks demo_solver [0, 1, 2] = Inr demo_solver"
    by (simp add: demo_hooks_def demo_solver_def)
  have c: "advance_all demo_hooks demo_solver (tl [0, 1, 2])
             = Inr ([Tensor [2] [1, 2], Tensor [2] [2, 4]], demo_solver)"
    by (simp add: demo_hooks_def)
  have d: "those (map (\<lambda>y. broadcast_to y (shape (y0 demo_solver)))
             [Tensor [2] [1, 2], Tensor [2] [2, 4]])
             = Some [Tensor [2] [1, 2], Tensor [2] [2, 4]]"
    by (simp add: demo_solver_def broadcast_to_def)
  show ?thesis
    using integrate_one_row_per_time [OF a b c d] by (simp add: demo_solver_def)
qed

text \<open>
  C1. When the scheme's hooks return (the event hook with the pair \<open>(event_time, y1)\<close>, \<open>y1\<close>
  of the state's shape) and leave the attribute \<open>y0\<close> alone, \<open>integrate_until_event\<close>
  returns \<open>event_time\<close> and a trajectory of exactly two rows: the initial state \<open>y0\<close> and the
  state at the event.
\<close>

theorem integrate_until_event_two_rows:
  assumes "before_integrate h s [t_start] = Inr s1"
    and "advance_until_event h s1 event_fn = Inr ((event_time, y1), s2)"
    and "y0 s2 = y0 s"
    and "shape y1 = shape (y0 s)"
  shows "integrate_until_event h s t_start event_fn = Inr ((event_time, [y0 s, y1]), s2)"
  using assms by (simp add: integrate_until_event_def stack_def)

theorem integrate_until_event_two_rows_witness:
  "integrate_until_event demo_hooks demo_solver 7 ()
     = Inr ((15 / 2, [Tensor [2] [3, 4], Tensor [2] [5, 6]]), demo_solver\<lparr>solver.more := 7\<rparr>)"
proof -
  have a: "before_integrate demo_hooks demo_solver [7] = Inr (demo_solver\<lparr>solver.more := 7\<rparr>)"
    by (simp add: demo_hooks_def)
  have b: "advance_until_event demo_hooks (demo_solver\<lparr>solver.more := 7\<rparr>) ()
             = Inr ((15 / 2, Tensor [2] [5, 6]), demo_solver\<lparr>solver.more := 7\<rparr>)"
    by (simp add: demo_hooks_def)
  have c: "y0 (demo_solver\<lparr>solver.more := 7\<rparr>) = y0 demo_solver"
    by simp
  have d: "shape (Tensor [2] [5, 6]) = shape (y0 demo_solver)"
    by (simp add: demo_solver_def)
  show ?thesis
    using integrate_until_event_two_rows [OF a b c d] by (simp add: demo_solver_def)
qed

text \<open>With the base class's own \<^verbatim>\<open>_advance_until_event\<close>, the event entry point raises.\<close>

lemma integrate_until_event_abstract:
  "integrate_until_event
     \<lparr> before_integrate = before_integrate_base, advance = adv,
       advance_until_event = advance_until_event_base \<rparr> s t_start event_fn
   = Inl NotImplementedError"
  by (simp add: integrate_until_event_def before_integrate_base_def advance_until_event_base_def)

section \<open>Properties of odeint.py\<close>

text \<open>
  C10. \<open>odeint_dense\<close> asserts that \<open>y0\<close> is a single tensor before it does anything else:
  for a \<open>y0\<close> that is not one (a tuple of tensors), it fails with an assertion error,
  whatever the input checking, the solver and the other arguments are.
\<close>

theorem odeint_dense_requires_tensor:
  assumes "\<not> is_tensor y_init"
  shows "odeint_dense check d ip func y_init t_start t_end rtol atol method options
           = Some (Inl AssertionError)"
  using assms by (simp add: odeint_dense_def odeint_dense_archive_def)

theorem odeint_dense_requires_tensor_witness:
  "odeint_dense demo_check demo_dopri5 demo_interp ()
     (Tuple [Tensor [1] [3], Tensor [1] [4]]) 0 1 (1 / 10) (1 / 10) None None
     = Some (Inl AssertionError)"
proof -
  have a: "\<not> is_tensor (Tuple [Tensor [1] [3], Tensor [1] [4]])"
    by simp
  show ?thesis
    using odeint_dense_requires_tensor [OF a] .
qed

text \<open>
  C9. When the input checking resolves the method to a name other than \<open>dopri5\<close>,
  \<open>odeint_dense\<close> fails with an assertion error; no solver is constructed and no step is
  taken (the result is the same for every stepping scheme \<open>d\<close>).
\<close>

theorem odeint_dense_requires_dopri5:
  assumes "check func y_init [t_start, t_end] rtol atol method options None SOLVERS = Inr c"
    and "c_method c \<noteq> ''dopri5''"
  shows "odeint_dense check d ip func y_init t_start t_end rtol atol method options
           = Some (Inl AssertionError)"
  using assms by (cases "is_tensor y_init") (simp_all add: odeint_dense_def odeint_dense_archive_def)

theorem odeint_dense_requires_dopri5_witness:
  "odeint_dense demo_check demo_dopri5 demo_interp ()
     (Single (Tensor [1] [3])) 0 1 (1 / 10) (1 / 10) (Some ''rk4'') None
     = Some (Inl AssertionError)"
proof -
  let ?c = "\<lparr> c_shapes = None, c_func = (), c_y0 = Tensor [1] [3], c_t = [0, 1],
             c_rtol = 1 / 10, c_atol = 1 / 10, c_method = ''rk4'', c_options = (),
             c_event_fn = None, c_t_is_reversed = False \<rparr> :: (unit, real, unit, unit) checked"
  have a: "demo_check () (Single (Tensor [1] [3])) [0, 1] (1 / 10) (1 / 10) (Some ''rk4'') None
             None SOLVERS = Inr ?c"
    by (simp add: demo_check_def SOLVERS_def)
  have b: "c_method ?c \<noteq> ''dopri5''"
    by simp
  show ?thesis
    using odeint_dense_requires_dopri5 [where check = demo_check, OF a b] .
qed

text \<open>
  C7. With an event function, \<open>odeint\<close> returns the event time the solver located, negated
  exactly when the input checking flagged the request as time-reversed.
\<close>

theorem odeint_event_time_direction:
  assumes "check func y_init t rtol atol method options event_fn SOLVERS = Inr c"
    and "SOLVERS (c_method c) = Some cls"
    and "construct (classes cls) (c_func c) (c_y0 c) (c_rtol c) (c_atol c) (c_options c)
           = Inr solver"
    and "c_event_fn c = Some ev"
    and "c_t c = t_first # t_rest"
    and "integrate_until_event_m (classes cls) solver t_first ev
           = Inr ((event_t, sol), solver')"
    and "reshape_solution fts (c_shapes c) (c_t c) sol = Inr sol'"
  shows "odeint check classes fts func y_init t rtol atol method options event_fn
           = Inr (Event (if c_t_is_reversed c then - event_t else event_t) sol')"
  using assms by (simp add: odeint_def)

theorem odeint_event_time_direction_witness:
  "odeint demo_check demo_classes demo_flat_to_shape () (Single (Tensor [2] [3, 4])) [1, 0]
     (1 / 10) (1 / 10) None None (Some ())
     = Inr (Event (1 / 2) (Flat [Tensor [2] [3, 4], Tensor [2] [5, 6]]))"
proof -
  let ?c = "\<lparr> c_shapes = None, c_func = (), c_y0 = Tensor [2] [3, 4], c_t = [- 1, 0],
             c_rtol = 1 / 10, c_atol = 1 / 10, c_method = ''dopri5'', c_options = (),
             c_event_fn = Some (), c_t_is_reversed = True \<rparr> :: (unit, real, unit, unit) checked"
  let ?s = "\<lparr> y0 = Tensor [2] [3, 4], \<dots> = (0 :: real) \<rparr>"
  let ?sol = "[Tensor [2] [3, 4], Tensor [2] [5, 6]]"
  have a: "demo_check () (Single (Tensor [2] [3, 4])) [1, 0] (1 / 10) (1 / 10) None None
             (Some ()) SOLVERS = Inr ?c"
    by (simp add: demo_check_def SOLVERS_def)
  have b: "SOLVERS (c_method ?c) = Some Dopri5Solver"
    by (simp add: SOLVERS_def)
  have c: "construct (demo_classes Dopri5Solver) (c_func ?c) (c_y0 ?c) (c_rtol ?c) (c_atol ?c)
             (c_options ?c) = Inr ?s"
    by (simp add: demo_classes_def adaptive_class_def)
  have d: "c_event_fn ?c = Some ()"
    by simp
  have e: "c_t ?c = - 1 # [0]"
    by simp
  have f: "integrate_until_event_m (demo_classes Dopri5Solver) ?s (- 1) ()
             = Inr ((- 1 / 2, ?sol), ?s\<lparr>solver.more := - 1\<rparr>)"
    by (simp add: demo_classes_def adaptive_class_def integrate_until_event_def demo_hooks_def
        stack_def)
  have g: "reshape_solution demo_flat_to_shape (c_shapes ?c) (c_t ?c) ?sol = Inr (Flat ?sol)"
    by (simp add: reshape_solution_def)
  show ?thesis
    using odeint_event_time_direction
      [where check = demo_check and classes = demo_classes, OF a b c d e f g]
    by simp
qed

subsection \<open>The binary search\<close>

lemma bisect_right_spec:
  "sorted xs \<Longrightarrow> lo \<le> hi \<Longrightarrow> hi \<le> length xs \<Longrightarrow> (\<And>i. i < lo \<Longrightarrow> xs ! i \<le> v)
     \<Longrightarrow> (\<And>i. hi \<le> i \<Longrightarrow> i < length xs \<Longrightarrow> v < xs ! i)
     \<Longrightarrow> lo \<le> bisect_right xs v lo hi \<and> bisect_right xs v lo hi \<le> hi
         \<and> (\<forall>i < bisect_right xs v lo hi. xs ! i \<le> v)
         \<and> (\<forall>i. bisect_right xs v lo hi \<le> i \<and> i < length xs \<longrightarrow> v < xs ! i)"
proof (induction xs v lo hi rule: bisect_right.induct)
  case (1 xs v lo hi)
  let ?mid = "lo + (hi - lo) div 2"
  show ?case
  proof (cases "lo < hi")
    case False
    with "1.prems" show ?thesis by (simp add: bisect_right.simps [of xs v lo hi])
  next
    case lt: True
    then have mid: "lo \<le> ?mid" "?mid < hi" by auto
    show ?thesis
    proof (cases "xs ! ?mid > v")
      case big: True
      have hyp: "\<And>i. ?mid \<le> i \<Longrightarrow> i < length xs \<Longrightarrow> v < xs ! i"
      proof -
        fix i assume "?mid \<le> i" "i < length xs"
        with \<open>sorted xs\<close> have "xs ! ?mid \<le> xs ! i" by (simp add: sorted_nth_mono)
        with big show "v < xs ! i" by simp
      qed
      have "lo \<le> bisect_right xs v lo ?mid \<and> bisect_right xs v lo ?mid \<le> ?mid
         \<and> (\<forall>i < bisect_right xs v lo ?mid. xs ! i \<le> v)
         \<and> (\<forall>i. bisect_right xs v lo ?mid \<le> i \<and> i < length xs \<longrightarrow> v < xs ! i)"
        using "1.IH"(2) [OF lt _ "1.prems"(1)] big mid "1.prems"(3,4) hyp by auto
      moreover have "bisect_right xs v lo hi = bisect_right xs v lo ?mid"
        using lt big by (simp add: bisect_right.simps [of xs v lo hi])
      ultimately show ?thesis using mid by auto
    next
      case small: False
      have hyp: "\<And>i. i < ?mid + 1 \<Longrightarrow> xs ! i \<le> v"
      proof -
        fix i assume "i < ?mid + 1"
        then have "i \<le> ?mid" by simp
        moreover have "?mid < length xs" using mid "1.prems"(3) by simp
        ultimately have "xs ! i \<le> xs ! ?mid" using \<open>sorted xs\<close> by (simp add: sorted_nth_mono)
        with small show "xs ! i \<le> v" by simp
      qed
      have "?mid + 1 \<le> bisect_right xs v (?mid + 1) hi \<and> bisect_right xs v (?mid + 1) hi \<le> hi
         \<and> (\<forall>i < bisect_right xs v (?mid + 1) hi. xs ! i \<le> v)
         \<and> (\<forall>i. bisect_right xs v (?mid + 1) hi \<le> i \<and> i < length xs \<longrightarrow> v < xs ! i)"
        using "1.IH"(1) [OF lt _ "1.prems"(1)] small mid "1.prems"(3,5) hyp by auto
      moreover have "bisect_right xs v lo hi = bisect_right xs v (?mid + 1) hi"
        using lt small by (simp add: bisect_right.simps [of xs v lo hi])
      ultimately show ?thesis using mid by auto
    qed
  qed
qed

lemma searchsorted_right_spec:
  assumes "sorted xs"
  shows "searchsorted_right xs v \<le> length xs
         \<and> (\<forall>i < searchsorted_right xs v. xs ! i \<le> v)
         \<and> (\<forall>i. searchsorted_right xs v \<le> i \<and> i < length xs \<longrightarrow> v < xs ! i)"
  using bisect_right_spec [OF assms, of 0 "length xs" v] by (simp add: searchsorted_right_def)

lemma searchsorted_right_below:
  assumes "sorted xs" "xs \<noteq> []" "v < hd xs"
  shows "searchsorted_right xs v = 0"
proof (rule ccontr)
  assume "searchsorted_right xs v \<noteq> 0"
  then have "xs ! 0 \<le> v" using searchsorted_right_spec [OF assms(1), of v] by auto
  with assms show False by (simp add: hd_conv_nth)
qed

lemma searchsorted_right_above:
  assumes "sorted xs" "xs \<noteq> []" "last xs \<le> v"
  shows "searchsorted_right xs v = length xs"
proof (rule ccontr)
  assume "searchsorted_right xs v \<noteq> length xs"
  then have r: "searchsorted_right xs v < length xs"
    using searchsorted_right_spec [OF assms(1), of v] by auto
  then have "v < xs ! searchsorted_right xs v"
    using searchsorted_right_spec [OF assms(1), of v] by auto
  moreover have "xs ! searchsorted_right xs v \<le> last xs"
    using r assms(1,2) by (simp add: last_conv_nth sorted_nth_mono)
  ultimately show False using assms(3) by simp
qed

lemma searchsorted_right_inside:
  assumes "sorted xs" "xs \<noteq> []" "hd xs \<le> v" "v < last xs"
  shows "0 < searchsorted_right xs v \<and> searchsorted_right xs v < length xs
           \<and> xs ! (searchsorted_right xs v - 1) \<le> v \<and> v < xs ! searchsorted_right xs v"
proof -
  let ?r = "searchsorted_right xs v"
  note spec = searchsorted_right_spec [OF assms(1), of v]
  have pos: "0 < ?r"
  proof (rule ccontr)
    assume "\<not> 0 < ?r"
    then have "v < xs ! 0" using spec assms(2) by auto
    with assms(2,3) show False by (simp add: hd_conv_nth)
  qed
  have lt: "?r < length xs"
  proof (rule ccontr)
    assume "\<not> ?r < length xs"
    then have "?r = length xs" using spec by auto
    then have "xs ! (length xs - 1) \<le> v" using spec assms(2) by auto
    with assms(2,4) show False by (simp add: last_conv_nth)
  qed
  from pos lt spec show ?thesis by auto
qed

lemma collect_map_Inr: "collect (map (\<lambda>i. Inr (f i)) xs) = Inr (map f xs)"
  by (induction xs) simp_all

lemma coef_list_nth:
  assumes "j < length cs" "list_all (\<lambda>c. length c = length (hd cs)) cs"
  shows "coef_list cs (int j) = Inr (cs ! j)"
proof -
  from assms(1) obtain c cs' where cs: "cs = c # cs'" by (cases cs) auto
  have len: "length (cs ! j) = length c"
    using assms by (simp add: cs list_all_length)
  have idx: "py_index cs (int j) = Inr (cs ! j)"
    using assms(1) by (simp add: py_index_def)
  have "map (\<lambda>i. case py_index cs (int j) of Inl e \<Rightarrow> Inl e | Inr c \<Rightarrow> py_index c (int i))
          [0..<length c] = map (\<lambda>i. Inr (cs ! j ! i)) [0..<length c]"
    using len assms(1) by (simp add: idx py_index_def)
  then have "coef_list cs (int j) = Inr (map (\<lambda>i. cs ! j ! i) [0..<length c])"
    by (simp add: coef_list_def cs collect_map_Inr del: map_eq_conv)
  also have "map (\<lambda>i. cs ! j ! i) [0..<length c] = cs ! j"
    using len map_nth [of "cs ! j"] by simp
  finally show ?thesis .
qed

lemma stack_rows_uniform:
  assumes "stack_rows cs = Inr cs'"
  shows "cs' = cs \<and> cs \<noteq> [] \<and> list_all (\<lambda>c. length c = length (hd cs)) cs"
proof -
  from assms obtain c rest where cs: "cs = c # rest" and
    all: "list_all (\<lambda>c'. rows_shape c' = rows_shape c) rest" and eq: "cs' = cs"
    by (auto simp: stack_rows_def split: list.splits if_splits)
  from all have "list_all (\<lambda>c'. length c' = length c) rest"
    by (auto simp: list_all_iff rows_shape_def)
  with cs eq show ?thesis by simp
qed

lemma query_below_first:
  assumes "0 \<le> tol ip" "sorted tms" "tms \<noteq> []" "t_q < hd tms - tol ip"
    and "stack_rows cs = Inr cs"
  shows "dense_output_fn ip tms cs t_q = Inl OutOfInterpolationRange"
proof -
  have "t_q < hd tms" using assms(1,4) by simp
  then have idx: "searchsorted_right tms t_q = 0"
    using searchsorted_right_below [OF assms(2,3)] by simp
  have a: "py_index tms (- 1) = Inr (last tms)"
    using assms(3) by (cases tms rule: rev_cases) (simp_all add: py_index_def)
  have b: "py_index tms 0 = Inr (hd tms)"
    using assms(3) by (simp add: py_index_def hd_conv_nth)
  have "hd tms \<le> last tms"
    using assms(2,3) by (simp add: hd_conv_nth last_conv_nth sorted_nth_mono)
  then have c: "interp_evaluate ip coef (last tms) (hd tms) t_q = Inl OutOfInterpolationRange"
    for coef
    using assms(4) by (simp add: interp_evaluate_def)
  note u = stack_rows_uniform [OF assms(5)]
  have ci: "py_index cs (- 1) = py_index cs (int (length cs - 1))"
    using u by (cases cs rule: rev_cases) (simp_all add: py_index_def)
  have "coef_list cs (- 1) = coef_list cs (int (length cs - 1))"
    unfolding coef_list_def ci ..
  also have "\<dots> = Inr (cs ! (length cs - 1))"
    using u by (intro coef_list_nth) simp_all
  finally show ?thesis
    by (simp add: dense_output_fn_def idx a b c)
qed

lemma query_from_last:
  assumes "sorted tms" "tms \<noteq> []" "last tms \<le> t_q"
  shows "dense_output_fn ip tms cs t_q = Inl IndexError"
proof -
  have idx: "searchsorted_right tms t_q = length tms"
    using searchsorted_right_above [OF assms] .
  have a: "py_index tms (int (length tms) - 1) = Inr (last tms)"
    using assms(2) by (cases tms rule: rev_cases) (simp_all add: py_index_def)
  have b: "py_index tms (int (length tms)) = Inl IndexError"
    by (simp add: py_index_def)
  show ?thesis
    by (simp add: dense_output_fn_def idx a b)
qed

lemma query_inside_delegates:
  assumes "sorted tms" "tms \<noteq> []" "hd tms \<le> t_q" "t_q < last tms"
    and "length cs + 1 = length tms"
    and "list_all (\<lambda>c. length c = length (hd cs)) cs"
  shows "\<exists>i. i + 1 < length tms \<and> tms ! i \<le> t_q \<and> t_q < tms ! (i + 1)
           \<and> dense_output_fn ip tms cs t_q
               = interp_evaluate ip (cs ! i) (tms ! i) (tms ! (i + 1)) t_q"
proof -
  let ?r = "searchsorted_right tms t_q"
  note r = searchsorted_right_inside [OF assms(1-4)]
  obtain i where i: "?r = i + 1"
    using r by (cases ?r) auto
  have a: "py_index tms (int ?r - 1) = Inr (tms ! i)"
    using r i by (simp add: py_index_def)
  have b: "py_index tms (int ?r) = Inr (tms ! (i + 1))"
    using r i by (simp add: py_index_def nat_add_distrib)
  have "i < length cs" using r i assms(5) by simp
  then have c: "coef_list cs (int ?r - 1) = Inr (cs ! i)"
    using coef_list_nth [OF _ assms(6), of i] i by simp
  have "dense_output_fn ip tms cs t_q = interp_evaluate ip (cs ! i) (tms ! i) (tms ! (i + 1)) t_q"
    by (simp add: dense_output_fn_def a b c)
  with r i show ?thesis by auto
qed

subsection \<open>The stepping loop and the archive\<close>

lemma dense_while_steps:
  "dense_steps k d st = Inr st' \<Longrightarrow>
   (\<And>j sj. j < k \<Longrightarrow> dense_steps j d st = Inr sj \<Longrightarrow> t1_of sj < next_t) \<Longrightarrow>
   next_t \<le> t1_of st' \<Longrightarrow> dense_while d next_t st = Some (Inr st')"
proof (induction k arbitrary: st)
  case 0
  then show ?case by (subst dense_while.simps) simp
next
  case (Suc k)
  from Suc.prems(1) obtain st1 where
    one: "dense_step d st = Inr st1" and rest: "dense_steps k d st1 = Inr st'"
    by (auto split: sum.splits)
  have "t1_of st < next_t"
    using Suc.prems(2) [of 0 st] by simp
  then have unfold: "dense_while d next_t st = dense_while d next_t st1"
    using one by (simp add: dense_while.simps [of d next_t st])
  have "dense_while d next_t st1 = Some (Inr st')"
  proof (rule Suc.IH [OF rest _ Suc.prems(3)])
    fix j sj
    assume "j < k" "dense_steps j d st1 = Inr sj"
    then show "t1_of sj < next_t"
      using Suc.prems(2) [of "Suc j" sj] one by simp
  qed
  with unfold show ?case by simp
qed

lemma dense_while_returns_steps:
  assumes "dense_while d next_t st = Some res"
  shows "\<forall>st'. res = Inr st' \<longrightarrow>
           (\<exists>k. dense_steps k d st = Inr st' \<and> next_t \<le> t1_of st'
              \<and> (\<forall>j<k. \<forall>sj. dense_steps j d st = Inr sj \<longrightarrow> t1_of sj < next_t))"
proof (rule dense_while.raw_induct
    [where P = "\<lambda>d next_t st res. \<forall>st'. res = Inr st' \<longrightarrow>
           (\<exists>k. dense_steps k d st = Inr st' \<and> next_t \<le> t1_of st'
              \<and> (\<forall>j<k. \<forall>sj. dense_steps j d st = Inr sj \<longrightarrow> t1_of sj < next_t))",
     OF _ assms])
  fix f d next_t st res
  assume IH: "\<And>d next_t st res. f d next_t st = Some res \<Longrightarrow>
         \<forall>st'. res = Inr st' \<longrightarrow>
           (\<exists>k. dense_steps k d st = Inr st' \<and> next_t \<le> t1_of st'
              \<and> (\<forall>j<k. \<forall>sj. dense_steps j d st = Inr sj \<longrightarrow> t1_of sj < next_t))"
    and body: "(if t1_of st < next_t
      then case dense_step d st of Inl e \<Rightarrow> Some (Inl e) | Inr st' \<Rightarrow> f d next_t st'
      else Some (Inr st)) = Some res"
  show "\<forall>st'. res = Inr st' \<longrightarrow>
           (\<exists>k. dense_steps k d st = Inr st' \<and> next_t \<le> t1_of st'
              \<and> (\<forall>j<k. \<forall>sj. dense_steps j d st = Inr sj \<longrightarrow> t1_of sj < next_t))"
  proof (cases "t1_of st < next_t")
    case False
    with body have "res = Inr st" by simp
    with False show ?thesis
      by (intro allI impI exI [of _ 0]) simp
  next
    case lt: True
    show ?thesis
    proof (cases "dense_step d st")
      case (Inl e)
      with lt body show ?thesis by auto
    next
      case (Inr st1)
      with lt body have call: "f d next_t st1 = Some res" by simp
      show ?thesis
      proof (intro allI impI)
        fix st' assume "res = Inr st'"
        with IH [OF call] obtain k where
          k: "dense_steps k d st1 = Inr st'" "next_t \<le> t1_of st'"
             "\<forall>j<k. \<forall>sj. dense_steps j d st1 = Inr sj \<longrightarrow> t1_of sj < next_t"
          by blast
        have "\<forall>j<Suc k. \<forall>sj. dense_steps j d st = Inr sj \<longrightarrow> t1_of sj < next_t"
        proof (intro allI impI)
          fix j sj assume j: "j < Suc k" "dense_steps j d st = Inr sj"
          show "t1_of sj < next_t"
          proof (cases j)
            case 0
            with j(2) lt show ?thesis by simp
          next
            case (Suc n)
            with j Inr have "n < k" "dense_steps n d st1 = Inr sj" by simp_all
            with k(3) show ?thesis by blast
          qed
        qed
        with k(1,2) Inr show "\<exists>k. dense_steps k d st = Inr st' \<and> next_t \<le> t1_of st'
              \<and> (\<forall>j<k. \<forall>sj. dense_steps j d st = Inr sj \<longrightarrow> t1_of sj < next_t)"
          by (intro exI [of _ "Suc k"]) simp
      qed
    qed
  qed
qed

lemma sorted_wrt_less_snoc:
  assumes "sorted_wrt (<) xs" "xs \<noteq> []" "last xs < (x :: real)"
  shows "sorted_wrt (<) (xs @ [x])"
proof -
  have "y \<le> last xs" if "y \<in> set xs" for y
  proof -
    from that obtain i where i: "i < length xs" "xs ! i = y"
      by (auto simp: in_set_conv_nth)
    show ?thesis
    proof (cases "i = length xs - 1")
      case True
      with i assms(2) show ?thesis by (simp add: last_conv_nth)
    next
      case False
      with i have "i < length xs - 1" "length xs - 1 < length xs" by simp_all
      with assms(1) have "xs ! i < xs ! (length xs - 1)"
        by (simp add: sorted_wrt_nth_less)
      with i assms(2) show ?thesis by (simp add: last_conv_nth)
    qed
  qed
  with assms(3) have "\<forall>y\<in>set xs. y < x" by fastforce
  with assms(1) show ?thesis by (simp add: sorted_wrt_append)
qed

lemma dense_step_cases:
  assumes "dense_step d st = Inr st'"
  obtains r s' c where "adaptive_step d (solver_of st) (rk_state (solver_of st)) = Inr (r, s')"
    and "rk_t1 r \<noteq> t0_of st" and "stack (interp_coeff r) = Inr c"
    and "st' = (s'\<lparr>rk_state := r\<rparr>, rk_t1 r, times_of st @ [rk_t1 r], coeffs_of st @ [c])"
  | r s' where "adaptive_step d (solver_of st) (rk_state (solver_of st)) = Inr (r, s')"
    and "rk_t1 r = t0_of st"
    and "st' = (s'\<lparr>rk_state := r\<rparr>, t0_of st, times_of st, coeffs_of st)"
  using assms by (auto simp: dense_step_def split: sum.splits if_splits)

lemma dense_step_inv:
  assumes "step_monotone d" "archive_ok st" "dense_step d st = Inr st'"
  shows "archive_ok st' \<and> prefix (times_of st) (times_of st')
           \<and> prefix (coeffs_of st) (coeffs_of st')"
  using assms(3)
proof (cases rule: dense_step_cases)
  case (1 r s' c)
  from assms(1) 1(1) have "t1_of st \<le> rk_t1 r"
    by (auto simp: step_monotone_def t1_of_def)
  with assms(2) 1(2) have "last (times_of st) < rk_t1 r"
    by (simp add: archive_ok_def)
  with assms(2) have "sorted_wrt (<) (times_of st @ [rk_t1 r])"
    by (intro sorted_wrt_less_snoc) (simp_all add: archive_ok_def)
  with assms(2) 1(4) show ?thesis
    by (simp add: archive_ok_def times_of_def coeffs_of_def t0_of_def t1_of_def solver_of_def)
next
  case (2 r s')
  with assms(2) show ?thesis
    by (simp add: archive_ok_def times_of_def coeffs_of_def t0_of_def t1_of_def solver_of_def)
qed

lemma dense_step_appends:
  assumes "archive_ok st" "dense_step d st = Inr st'"
  shows "(step_rejected st st' \<longrightarrow> times_of st' = times_of st \<and> coeffs_of st' = coeffs_of st)
       \<and> (\<not> step_rejected st st' \<longrightarrow>
             times_of st' = times_of st @ [t1_of st']
             \<and> (\<exists>c. stack (interp_coeff (rk_state (solver_of st'))) = Inr c
                    \<and> coeffs_of st' = coeffs_of st @ [c]))"
  using assms(2)
proof (cases rule: dense_step_cases)
  case (1 r s' c)
  with assms(1) show ?thesis
    by (simp add: step_rejected_def archive_ok_def times_of_def coeffs_of_def t0_of_def
        t1_of_def solver_of_def)
next
  case (2 r s')
  with assms(1) show ?thesis
    by (simp add: step_rejected_def archive_ok_def times_of_def coeffs_of_def t0_of_def
        t1_of_def solver_of_def)
qed

lemma dense_steps_add:
  "dense_steps k1 d st = Inr st1 \<Longrightarrow> dense_steps k2 d st1 = Inr st2
     \<Longrightarrow> dense_steps (k1 + k2) d st = Inr st2"
  by (induction k1 arbitrary: st) (auto split: sum.splits)

lemma dense_steps_inv:
  "step_monotone d \<Longrightarrow> archive_ok st \<Longrightarrow> dense_steps k d st = Inr st'
     \<Longrightarrow> archive_ok st' \<and> prefix (times_of st) (times_of st')
           \<and> prefix (coeffs_of st) (coeffs_of st')"
proof (induction k arbitrary: st)
  case 0
  then show ?case by simp
next
  case (Suc k)
  from Suc.prems(3) obtain st1 where
    one: "dense_step d st = Inr st1" and rest: "dense_steps k d st1 = Inr st'"
    by (auto split: sum.splits)
  note a = dense_step_inv [OF Suc.prems(1,2) one]
  from a have ok1: "archive_ok st1" by simp
  note b = Suc.IH [OF Suc.prems(1) ok1 rest]
  from a b show ?case
    by (meson prefix_order.order_trans)
qed

lemma dense_while_inv:
  assumes "step_monotone d" "archive_ok st" "dense_while d next_t st = Some (Inr st')"
  shows "archive_ok st' \<and> prefix (times_of st) (times_of st')
           \<and> prefix (coeffs_of st) (coeffs_of st')"
proof -
  from dense_while_returns_steps [OF assms(3)] obtain k where "dense_steps k d st = Inr st'"
    by blast
  from dense_steps_inv [OF assms(1,2) this] show ?thesis .
qed

lemma dense_advance_while:
  assumes "dense_advance d ip next_t st = Some (Inr (row, st'))"
  shows "dense_while d next_t st = Some (Inr st')"
  using assms by (auto simp: dense_advance_def split: option.splits sum.splits)

lemma dense_for_inv:
  "step_monotone d \<Longrightarrow> archive_ok st \<Longrightarrow> dense_for d ip t is (sol, st) = Some (Inr (sol', st'))
     \<Longrightarrow> archive_ok st' \<and> prefix (times_of st) (times_of st')"
proof (induction "is" arbitrary: sol st)
  case Nil
  then show ?case by simp
next
  case (Cons i "is")
  from Cons.prems(3) obtain row st1 sol1 where
    adv: "dense_advance d ip (t ! i) st = Some (Inr (row, st1))" and
    rest: "dense_for d ip t is (sol1, st1) = Some (Inr (sol', st'))"
    by (auto split: option.splits sum.splits)
  note a = dense_while_inv [OF Cons.prems(1,2) dense_advance_while [OF adv]]
  from a have ok1: "archive_ok st1" by simp
  note b = Cons.IH [OF Cons.prems(1) ok1 rest]
  from a b show ?case
    by (meson prefix_order.order_trans)
qed

lemma dense_for_steps:
  "dense_for d ip t is (sol, st) = Some (Inr (sol', st')) \<Longrightarrow> \<exists>k. dense_steps k d st = Inr st'"
proof (induction "is" arbitrary: sol st)
  case Nil
  then have "dense_steps 0 d st = Inr st'" by simp
  then show ?case by blast
next
  case (Cons i "is")
  from Cons.prems obtain row st1 sol1 where
    adv: "dense_advance d ip (t ! i) st = Some (Inr (row, st1))" and
    rest: "dense_for d ip t is (sol1, st1) = Some (Inr (sol', st'))"
    by (auto split: option.splits sum.splits)
  from dense_while_returns_steps [OF dense_advance_while [OF adv]]
  obtain k1 where "dense_steps k1 d st = Inr st1" by blast
  moreover from Cons.IH [OF rest] obtain k2 where "dense_steps k2 d st1 = Inr st'" by blast
  ultimately have "dense_steps (k1 + k2) d st = Inr st'" by (rule dense_steps_add)
  then show ?case by blast
qed

lemma loop_start_ok:
  assumes "starts_at_point d" "rk_before_integrate d s t = Inr s1"
  shows "archive_ok (loop_start s1)"
  using assms
  by (auto simp: starts_at_point_def archive_ok_def loop_start_def times_of_def coeffs_of_def
      t0_of_def t1_of_def solver_of_def)

lemma odeint_dense_archive_sorted:
  assumes "step_monotone d" "starts_at_point d"
    and "odeint_dense_archive check d ip func y_init t_start t_end rtol atol method options
           = Some (Inr (tms, cs))"
  shows "sorted_wrt (<) tms \<and> tms \<noteq> [] \<and> length cs + 1 = length tms
           \<and> stack_rows cs = Inr cs"
proof -
  from assms(3) obtain c s sol s1 sol' st where
    c: "check func y_init [t_start, t_end] rtol atol method options None SOLVERS = Inr c" and
    bi: "rk_before_integrate d s (c_t c) = Inr s1" and
    loop: "dense_for d ip (c_t c) [1..<length (c_t c)]
             (sol, (s1, rk_t0 (rk_state s1), [rk_t0 (rk_state s1)], []))
             = Some (Inr (sol', st))" and
    stk: "stack_rows (coeffs_of st) = Inr cs" and tms: "tms = times_of st"
    by (auto simp: odeint_dense_archive_def split: if_splits sum.splits option.splits)
  from loop_start_ok [OF assms(2) bi]
  have "archive_ok (s1, rk_t0 (rk_state s1), [rk_t0 (rk_state s1)], [])"
    by (simp add: loop_start_def)
  from dense_for_inv [OF assms(1) this loop] have ok: "archive_ok st" by simp
  from stack_rows_uniform [OF stk] have "cs = coeffs_of st" by simp
  with ok tms stk show ?thesis by (simp add: archive_ok_def)
qed

lemma demo_archive:
  "odeint_dense_archive demo_check demo_dopri5 demo_interp () (Single (Tensor [2] [3, 4])) 0 1
     (1 / 10) (1 / 10) None None
   = Some (Inr ([0, 1 / 2, 1],
        [[Tensor [2] [3, 4], Tensor [2] [3, 4]], [Tensor [2] [3, 4], Tensor [2] [3, 4]]]))"
  by (simp add: odeint_dense_archive_def demo_check_def SOLVERS_def demo_dopri5_def
      setitem_def torch_empty_def broadcast_to_def dense_advance_def dense_while.simps
      dense_step_def solver_of_def t0_of_def t1_of_def times_of_def coeffs_of_def stack_def
      interp_evaluate_def demo_interp_def stack_rows_def rows_shape_def)

lemma dense_advance_after_steps:
  assumes "dense_steps k d st = Inr st'"
    and "\<And>j sj. j < k \<Longrightarrow> dense_steps j d st = Inr sj \<Longrightarrow> t1_of sj < next_t"
    and "next_t \<le> t1_of st'"
  shows "dense_advance d ip next_t st =
           Some (case interp_evaluate ip (interp_coeff (rk_state (solver_of st')))
                        (rk_t0 (rk_state (solver_of st'))) (rk_t1 (rk_state (solver_of st')))
                        next_t of
                   Inl e \<Rightarrow> Inl e
                 | Inr row \<Rightarrow> Inr (row, st'))"
proof -
  have "dense_while d next_t st = Some (Inr st')"
    using assms by (rule dense_while_steps)
  then show ?thesis
    by (simp add: dense_advance_def split: sum.splits)
qed

lemma first_reach_advance:
  assumes "first_reach d next_t k st"
  obtains st' where "dense_steps k d st = Inr st'"
    and "dense_advance d ip next_t st =
           Some (case interp_evaluate ip (interp_coeff (rk_state (solver_of st')))
                        (rk_t0 (rk_state (solver_of st'))) (rk_t1 (rk_state (solver_of st')))
                        next_t of
                   Inl e \<Rightarrow> Inl e
                 | Inr row \<Rightarrow> Inr (row, st'))"
proof -
  from assms obtain st' where
    k: "dense_steps k d st = Inr st'" and reach: "next_t \<le> t1_of st'" and
    before: "list_all (\<lambda>j. case dense_steps j d st of
                              Inl e \<Rightarrow> False
                            | Inr sj \<Rightarrow> t1_of sj < next_t) [0..<k]"
    by (auto simp: first_reach_def split: sum.splits)
  have lt: "t1_of sj < next_t" if "j < k" "dense_steps j d st = Inr sj" for j sj
  proof -
    from before that(1)
    have "case dense_steps j d st of Inl e \<Rightarrow> False | Inr sj \<Rightarrow> t1_of sj < next_t"
      by (simp add: list_all_iff)
    with that(2) show ?thesis by simp
  qed
  have "dense_advance d ip next_t st =
           Some (case interp_evaluate ip (interp_coeff (rk_state (solver_of st')))
                        (rk_t0 (rk_state (solver_of st'))) (rk_t1 (rk_state (solver_of st')))
                        next_t of
                   Inl e \<Rightarrow> Inl e
                 | Inr row \<Rightarrow> Inr (row, st'))"
    using k lt reach by (rule dense_advance_after_steps)
  with k that show ?thesis
    by blast
qed

text \<open>
  C4. The forward pass of \<open>odeint_dense\<close> takes the requested times in order. For each of
  them it makes passes through the stepping loop exactly as long as the solver's right
  endpoint \<open>t1\<close> is below the time (the number of passes is the first after which \<open>t1\<close> has
  reached it), then evaluates the interpolation at the time with the coefficients and
  endpoints of the solver's state then, and stores the value as the output row of that time.
\<close>

theorem dense_for_rows_in_order:
  assumes "schedule_first d t plan st"
  shows "dense_for d ip t (map fst plan) (solution, st)
           = Some (scheduled_rows d ip t plan (solution, st))"
  using assms
proof (induction plan arbitrary: solution st)
  case Nil
  then show ?case by simp
next
  case (Cons p plan)
  obtain i k where p: "p = (i, k)" by (cases p)
  from Cons.prems have reach: "first_reach d (t ! i) k st"
    by (simp add: p)
  from reach obtain st' where
    k: "dense_steps k d st = Inr st'" and
    adv: "dense_advance d ip (t ! i) st =
           Some (case interp_evaluate ip (interp_coeff (rk_state (solver_of st')))
                        (rk_t0 (rk_state (solver_of st'))) (rk_t1 (rk_state (solver_of st')))
                        (t ! i) of
                   Inl e \<Rightarrow> Inl e
                 | Inr row \<Rightarrow> Inr (row, st'))"
    by (rule first_reach_advance)
  from Cons.prems k have rest: "schedule_first d t plan st'"
    by (simp add: p)
  show ?case
  proof (cases "interp_evaluate ip (interp_coeff (rk_state (solver_of st')))
                  (rk_t0 (rk_state (solver_of st'))) (rk_t1 (rk_state (solver_of st'))) (t ! i)")
    case (Inl e)
    with k adv show ?thesis by (simp add: p)
  next
    case row: (Inr row)
    show ?thesis
    proof (cases "setitem solution i row")
      case (Inl e)
      with k adv row show ?thesis by (simp add: p)
    next
      case (Inr solution')
      with k adv row Cons.IH [OF rest, of solution'] show ?thesis by (simp add: p)
    qed
  qed
qed

lemma demo_step1: "dense_step demo_dopri5 demo_state = Inr demo_state1"
  by (simp add: dense_step_def demo_dopri5_def demo_state_def demo_state1_def solver_of_def
      t0_of_def times_of_def coeffs_of_def)

lemma demo_step2: "dense_step demo_dopri5 demo_state1 = Inr demo_state2"
  by (simp add: dense_step_def demo_dopri5_def demo_state1_def demo_state2_def solver_of_def
      t0_of_def times_of_def coeffs_of_def stack_def)

lemma demo_step3: "dense_step demo_dopri5 demo_state2 = Inr demo_state3"
  by (simp add: dense_step_def demo_dopri5_def demo_state2_def demo_state3_def solver_of_def
      t0_of_def times_of_def coeffs_of_def stack_def)

lemma demo_t1:
  "t1_of demo_state = 0" "t1_of demo_state1 = 0" "t1_of demo_state2 = 1 / 2"
  "t1_of demo_state3 = 1"
  by (simp_all add: demo_state_def demo_state1_def demo_state2_def demo_state3_def t1_of_def
      solver_of_def)

lemma demo_intervals:
  "rk_t0 (rk_state (solver_of demo_state2)) = 0"
  "rk_t1 (rk_state (solver_of demo_state2)) = 1 / 2"
  "rk_t0 (rk_state (solver_of demo_state3)) = 1 / 2"
  "rk_t1 (rk_state (solver_of demo_state3)) = 1"
  by (simp_all add: demo_state2_def demo_state3_def solver_of_def)

theorem dense_for_rows_in_order_witness:
  "dense_for demo_dopri5 demo_interp_ends [0, 1 / 2, 1] [1, 2]
     ([Tensor [2] [3, 4], Tensor [2] [0, 0], Tensor [2] [0, 0]], demo_state)
   = Some (Inr ([Tensor [2] [3, 4], Tensor [2] [0, 1 / 2], Tensor [2] [1 / 2, 1]], demo_state3))"
proof -
  have s2: "dense_steps (Suc (Suc 0)) demo_dopri5 demo_state = Inr demo_state2"
    by (simp add: demo_step1 demo_step2)
  have s1: "dense_steps (Suc 0) demo_dopri5 demo_state = Inr demo_state1"
    by (simp add: demo_step1)
  have s3: "dense_steps (Suc 0) demo_dopri5 demo_state2 = Inr demo_state3"
    by (simp add: demo_step3)
  have s0: "dense_steps 0 demo_dopri5 st = Inr st" for st
    by simp
  have a: "schedule_first demo_dopri5 [0, 1 / 2, 1] [(1, Suc (Suc 0)), (2, Suc 0)] demo_state"
    by (simp add: first_reach_def s0 s1 s2 s3 demo_t1 upt_rec del: dense_steps.simps)
  have b: "scheduled_rows demo_dopri5 demo_interp_ends [0, 1 / 2, 1]
             [(1, Suc (Suc 0)), (2, Suc 0)]
             ([Tensor [2] [3, 4], Tensor [2] [0, 0], Tensor [2] [0, 0]], demo_state)
           = Inr ([Tensor [2] [3, 4], Tensor [2] [0, 1 / 2], Tensor [2] [1 / 2, 1]], demo_state3)"
    by (simp add: s2 s3 demo_intervals interp_evaluate_def demo_interp_ends_def setitem_def
        broadcast_to_def del: dense_steps.simps)
  show ?thesis
    using dense_for_rows_in_order [where ip = demo_interp_ends, OF a] b
    by simp
qed

lemma demo_step_monotone: "step_monotone demo_dopri5"
  by (auto simp: step_monotone_def demo_dopri5_def split: if_splits)

lemma demo_starts_at_point: "starts_at_point demo_dopri5"
  by (auto simp: starts_at_point_def demo_dopri5_def split: list.splits)

text \<open>
  C6. For a stepping scheme that never moves \<open>t1\<close> backwards and sits at the start time
  before its first step, the breakpoint times \<open>odeint_dense\<close> archives are strictly
  increasing, with one stack of coefficients per interval. In every state the run reaches,
  a pass through the loop body that is a rejected step leaves the archive as it is, and any
  other pass appends exactly the new \<open>t1\<close> and the stack of the new coefficients: the
  archive only grows at its end.
\<close>

theorem archive_breakpoints_increasing:
  assumes "step_monotone d" and "starts_at_point d"
  shows "(odeint_dense_archive check d ip func y_init t_start t_end rtol atol method options
            = Some (Inr (tms, cs))
          \<longrightarrow> sorted_wrt (<) tms \<and> length cs + 1 = length tms)
       \<and> (rk_before_integrate d s t = Inr s1 \<and> dense_steps k d (loop_start s1) = Inr st
            \<and> dense_step d st = Inr st'
          \<longrightarrow> sorted_wrt (<) (times_of st')
              \<and> (step_rejected st st'
                    \<longrightarrow> times_of st' = times_of st \<and> coeffs_of st' = coeffs_of st)
              \<and> (\<not> step_rejected st st'
                    \<longrightarrow> times_of st' = times_of st @ [t1_of st']
                        \<and> (\<exists>c. stack (interp_coeff (rk_state (solver_of st'))) = Inr c
                               \<and> coeffs_of st' = coeffs_of st @ [c])))"
proof (intro conjI impI)
  assume "odeint_dense_archive check d ip func y_init t_start t_end rtol atol method options
            = Some (Inr (tms, cs))"
  from odeint_dense_archive_sorted [OF assms this]
  show "sorted_wrt (<) tms" and "length cs + 1 = length tms"
    by simp_all
next
  assume run: "rk_before_integrate d s t = Inr s1 \<and> dense_steps k d (loop_start s1) = Inr st
            \<and> dense_step d st = Inr st'"
  then have "archive_ok (loop_start s1)"
    using loop_start_ok [OF assms(2)] by blast
  with run have ok: "archive_ok st"
    using dense_steps_inv [OF assms(1)] by blast
  with run have "archive_ok st'"
    using dense_step_inv [OF assms(1)] by blast
  then show "sorted_wrt (<) (times_of st')"
    by (simp add: archive_ok_def)
  from run have step: "dense_step d st = Inr st'" by simp
  note app = dense_step_appends [OF ok step]
  {
    assume "step_rejected st st'"
    with app show "times_of st' = times_of st" and "coeffs_of st' = coeffs_of st"
      by simp_all
  }
  {
    assume "\<not> step_rejected st st'"
    with app show "times_of st' = times_of st @ [t1_of st']"
      and "\<exists>c. stack (interp_coeff (rk_state (solver_of st'))) = Inr c
                \<and> coeffs_of st' = coeffs_of st @ [c]"
      by simp_all
  }
qed

theorem archive_breakpoints_increasing_witness:
  "sorted_wrt (<) [0, 1 / 2, 1 :: real]
     \<and> step_rejected demo_state demo_state1
     \<and> times_of demo_state1 = times_of demo_state
     \<and> \<not> step_rejected demo_state1 demo_state2
     \<and> times_of demo_state2 = times_of demo_state1 @ [1 / 2]"
proof -
  have a: "odeint_dense_archive demo_check demo_dopri5 demo_interp ()
             (Single (Tensor [2] [3, 4])) 0 1 (1 / 10) (1 / 10) None None
           = Some (Inr ([0, 1 / 2, 1],
                [[Tensor [2] [3, 4], Tensor [2] [3, 4]], [Tensor [2] [3, 4], Tensor [2] [3, 4]]]))"
    by (rule demo_archive)
  have b: "rk_before_integrate demo_dopri5 demo_rk_solver [0, 1] = Inr demo_rk_solver"
    by (simp add: demo_dopri5_def demo_rk_solver_def)
  have c: "loop_start demo_rk_solver = demo_state"
    by (simp add: loop_start_def demo_rk_solver_def demo_state_def)
  have k0: "dense_steps 0 demo_dopri5 (loop_start demo_rk_solver) = Inr demo_state"
    by (simp add: c)
  have k1: "dense_steps (Suc 0) demo_dopri5 (loop_start demo_rk_solver) = Inr demo_state1"
    by (simp add: c demo_step1)
  have r1: "step_rejected demo_state demo_state1"
    by (simp add: step_rejected_def demo_t1)
  have r2: "\<not> step_rejected demo_state1 demo_state2"
    by (simp add: step_rejected_def demo_t1)
  note main = archive_breakpoints_increasing [OF demo_step_monotone demo_starts_at_point]
  from main [where check = demo_check and ip = demo_interp] a
  have "sorted_wrt (<) [0, 1 / 2, 1 :: real]"
    by blast
  moreover from main [where s = demo_rk_solver and k = 0] b k0 demo_step1 r1
  have "times_of demo_state1 = times_of demo_state"
    by blast
  moreover from main [where s = demo_rk_solver and k = "Suc 0"] b k1 demo_step2 r2
  have "times_of demo_state2 = times_of demo_state1 @ [t1_of demo_state2]"
    by blast
  ultimately show ?thesis
    using r1 r2 by (simp add: demo_t1)
qed

subsection \<open>Queries of the dense-output function\<close>

text \<open>
  C3, as the code has it. The interpolation routine fails with \<open>OutOfInterpolationRange\<close> for
  a query outside \<open>[t0, t1]\<close> beyond the tolerance. On an archive with increasing breakpoints,
  the dense-output function returns no value for a query outside the archived range: below
  the first breakpoint (beyond the tolerance) the search wraps to the last interval and
  the routine's range check fails with \<open>OutOfInterpolationRange\<close>; above the last breakpoint
  indexing the breakpoint array fails with \<open>IndexError\<close>.
\<close>

theorem dense_output_out_of_range:
  assumes "0 \<le> tol ip" and "sorted tms" and "tms \<noteq> []" and "stack_rows cs = Inr cs"
  shows "(t_q < a - tol ip \<or> b + tol ip < t_q
            \<longrightarrow> interp_evaluate ip coef a b t_q = Inl OutOfInterpolationRange)
       \<and> (t_q < hd tms - tol ip \<longrightarrow> dense_output_fn ip tms cs t_q = Inl OutOfInterpolationRange)
       \<and> (last tms < t_q \<longrightarrow> dense_output_fn ip tms cs t_q = Inl IndexError)"
proof (intro conjI impI)
  assume "t_q < a - tol ip \<or> b + tol ip < t_q"
  then show "interp_evaluate ip coef a b t_q = Inl OutOfInterpolationRange"
    by (auto simp: interp_evaluate_def)
next
  assume "t_q < hd tms - tol ip"
  with assms show "dense_output_fn ip tms cs t_q = Inl OutOfInterpolationRange"
    by (intro query_below_first)
next
  assume "last tms < t_q"
  with assms(2,3) show "dense_output_fn ip tms cs t_q = Inl IndexError"
    by (intro query_from_last) simp_all
qed

lemma demo_coeffs_stacked: "stack_rows demo_coeffs = Inr demo_coeffs"
  by (simp add: demo_coeffs_def stack_rows_def rows_shape_def)

theorem dense_output_out_of_range_witness:
  "interp_evaluate demo_interp [Tensor [2] [3, 4]] 0 1 5 = Inl OutOfInterpolationRange
     \<and> dense_output_fn demo_interp [0, 1 / 2, 1] demo_coeffs (- 1) = Inl OutOfInterpolationRange
     \<and> dense_output_fn demo_interp [0, 1 / 2, 1] demo_coeffs 3 = Inl IndexError"
proof -
  have a: "0 \<le> tol demo_interp"
    by (simp add: demo_interp_def)
  have b: "sorted [0, 1 / 2, 1 :: real]"
    by simp
  have c: "[0, 1 / 2, 1 :: real] \<noteq> []"
    by simp
  note main = dense_output_out_of_range [OF a b c demo_coeffs_stacked]
  have "interp_evaluate demo_interp [Tensor [2] [3, 4]] 0 1 5 = Inl OutOfInterpolationRange"
    using main [of 5 0 1] by (simp add: demo_interp_def)
  moreover have "dense_output_fn demo_interp [0, 1 / 2, 1] demo_coeffs (- 1)
                   = Inl OutOfInterpolationRange"
    using main [of "- 1"] by (simp add: demo_interp_def)
  moreover have "dense_output_fn demo_interp [0, 1 / 2, 1] demo_coeffs 3 = Inl IndexError"
    using main [of 3] by simp
  ultimately show ?thesis by blast
qed

text \<open>
  C3 as stated fails above the last breakpoint: the error there is \<open>IndexError\<close>, not
  \<open>OutOfInterpolationRange\<close>.
\<close>

theorem dense_output_above_range_counterexample:
  "last [0, 1 / 2, 1] < (2 :: real)
     \<and> dense_output_fn demo_interp [0, 1 / 2, 1] demo_coeffs 2 = Inl IndexError
     \<and> dense_output_fn demo_interp [0, 1 / 2, 1] demo_coeffs 2 \<noteq> Inl OutOfInterpolationRange"
proof -
  have "dense_output_fn demo_interp [0, 1 / 2, 1] demo_coeffs 2 = Inl IndexError"
    by (rule query_from_last) simp_all
  then show ?thesis by simp
qed

text \<open>
  C5. Inside the archived range and below the last breakpoint, the search finds the owning
  interval and the query is handed to the interpolation routine with that interval's
  coefficients and endpoints (\<open>query_inside_delegates\<close>). At the last breakpoint itself the
  search returns the length of the breakpoint array and indexing fails: on the run of the
  instance from 0 to 1, whose last accepted step ends at 1, the query at 1 raises
  \<open>IndexError\<close> instead of being evaluated on the interval from 1/2 to 1.
\<close>

theorem dense_output_last_breakpoint:
  "odeint_dense_archive demo_check demo_dopri5 demo_interp () (Single (Tensor [2] [3, 4])) 0 1
       (1 / 10) (1 / 10) None None
     = Some (Inr ([0, 1 / 2, 1], demo_coeffs))
   \<and> dense_output_fn demo_interp [0, 1 / 2, 1] demo_coeffs 1 = Inl IndexError"
proof -
  have "dense_output_fn demo_interp [0, 1 / 2, 1] demo_coeffs 1 = Inl IndexError"
    by (rule query_from_last) simp_all
  with demo_archive show ?thesis by (simp add: demo_coeffs_def)
qed

subsection \<open>odeint with an event function, and the rest of the time sequence\<close>

text \<open>
  C8, as the code has it. With an event function, \<open>odeint\<close> uses of the checked time sequence
  its first element, and its length where the state is a tuple (the length goes to
  \<open>_flat_to_shape\<close>). So for two time sequences that the input checking accepts and treats
  alike apart from the elements after the first (same first element, same direction, same
  other outputs), and that have the same length or come with a single-tensor state,
  \<open>odeint\<close> returns the same result.
\<close>

theorem odeint_event_rest_of_times:
  assumes "check func y_init t rtol atol method options event_fn SOLVERS = Inr c"
    and "check func y_init t' rtol atol method options event_fn SOLVERS = Inr c'"
    and "c' = c\<lparr>c_t := c_t c'\<rparr>"
    and "c_event_fn c = Some ev"
    and "c_t c = t_first # r" and "c_t c' = t_first # r'"
    and "c_shapes c = None \<or> length r = length r'"
  shows "odeint check classes fts func y_init t rtol atol method options event_fn
           = odeint check classes fts func y_init t' rtol atol method options event_fn"
proof -
  have f: "c_method c' = c_method c" "c_func c' = c_func c" "c_y0 c' = c_y0 c"
    "c_rtol c' = c_rtol c" "c_atol c' = c_atol c" "c_options c' = c_options c"
    "c_event_fn c' = c_event_fn c" "c_shapes c' = c_shapes c"
    "c_t_is_reversed c' = c_t_is_reversed c"
    by (subst assms(3), simp)+
  have "reshape_solution fts (c_shapes c) (c_t c') sol
          = reshape_solution fts (c_shapes c) (c_t c) sol" for sol
    using assms(5-7) by (auto simp: reshape_solution_def split: option.splits)
  then show ?thesis
    by (simp add: odeint_def assms(1,2,4,5,6) f
        cong: option.case_cong sum.case_cong prod.case_cong)
qed

theorem odeint_event_rest_of_times_witness:
  "odeint demo_check demo_classes demo_flat_to_shape ()
     (Tuple [Tensor [1] [3], Tensor [1] [4]]) [0, 1] (1 / 10) (1 / 10) None None (Some ())
   = Inr (Event (1 / 2)
       (Shaped [[Tensor [1] [3], Tensor [1] [5]], [Tensor [1] [4], Tensor [1] [6]]]))
   \<and> odeint demo_check demo_classes demo_flat_to_shape ()
     (Tuple [Tensor [1] [3], Tensor [1] [4]]) [0, 1] (1 / 10) (1 / 10) None None (Some ())
   = odeint demo_check demo_classes demo_flat_to_shape ()
     (Tuple [Tensor [1] [3], Tensor [1] [4]]) [0, 9] (1 / 10) (1 / 10) None None (Some ())"
proof -
  let ?c = "\<lparr> c_shapes = Some [[1], [1]], c_func = (), c_y0 = Tensor [2] [3, 4],
             c_t = [0, 1], c_rtol = 1 / 10, c_atol = 1 / 10, c_method = ''dopri5'',
             c_options = (), c_event_fn = Some (), c_t_is_reversed = False \<rparr>
             :: (unit, real, unit, unit) checked"
  let ?c' = "?c\<lparr>c_t := [0, 9]\<rparr>"
  have a: "demo_check () (Tuple [Tensor [1] [3], Tensor [1] [4]]) [0, 1] (1 / 10)
             (1 / 10) None None (Some ()) SOLVERS = Inr ?c"
    by (simp add: demo_check_def SOLVERS_def)
  have b: "demo_check () (Tuple [Tensor [1] [3], Tensor [1] [4]]) [0, 9] (1 / 10)
             (1 / 10) None None (Some ()) SOLVERS = Inr ?c'"
    by (simp add: demo_check_def SOLVERS_def)
  have c: "?c' = ?c\<lparr>c_t := c_t ?c'\<rparr>"
    by simp
  have d: "c_event_fn ?c = Some ()"
    by simp
  have e: "c_t ?c = 0 # [1]" "c_t ?c' = 0 # [9]"
    by simp_all
  have f: "c_shapes ?c = None \<or> length [1 :: real] = length [9 :: real]"
    by simp
  have run: "odeint demo_check demo_classes demo_flat_to_shape ()
     (Tuple [Tensor [1] [3], Tensor [1] [4]]) [0, 1] (1 / 10) (1 / 10) None None (Some ())
   = Inr (Event (1 / 2)
       (Shaped [[Tensor [1] [3], Tensor [1] [5]], [Tensor [1] [4], Tensor [1] [6]]]))"
    by (simp add: odeint_def demo_check_def SOLVERS_def demo_classes_def adaptive_class_def
        integrate_until_event_def demo_hooks_def stack_def reshape_solution_def
        demo_flat_to_shape_def)
  show ?thesis
    using run odeint_event_rest_of_times
      [where check = demo_check and classes = demo_classes and fts = demo_flat_to_shape,
       OF a b c d e f]
    by simp
qed

text \<open>
  C8 as stated fails: the sequences \<open>[0, 1]\<close> and \<open>[0, 1, 2]\<close> have the same first element and
  the same direction, and on the instance, whose input checking wants two elements with an
  event function, the first gives an event and the second an error.
\<close>

theorem odeint_event_length_counterexample:
  "odeint demo_check demo_classes demo_flat_to_shape ()
       (Tuple [Tensor [1] [3], Tensor [1] [4]]) [0, 1] (1 / 10) (1 / 10) None None (Some ())
     = Inr (Event (1 / 2)
         (Shaped [[Tensor [1] [3], Tensor [1] [5]], [Tensor [1] [4], Tensor [1] [6]]]))
   \<and> odeint demo_check demo_classes demo_flat_to_shape ()
       (Tuple [Tensor [1] [3], Tensor [1] [4]]) [0, 1, 2] (1 / 10) (1 / 10) None None (Some ())
     = Inl ValueError"
  by (simp add: odeint_def demo_check_def SOLVERS_def demo_classes_def adaptive_class_def
      integrate_until_event_def demo_hooks_def stack_def reshape_solution_def
      demo_flat_to_shape_def)

end
